theory Spec2Isabelle
  imports Complex_Main "HOL-Library.Word" "HOL-Library.Sublist"
begin

section \<open>Readme readers of grip (\<^verbatim>\<open>grip/readers.py\<close>)\<close>

text \<open>
  The module reads Readme content from a directory tree, from a string or from
  standard input. Its own code is short; most of what it does is done by calls into
  \<^verbatim>\<open>posixpath\<close>, \<^verbatim>\<open>flask.safe_join\<close>, \<^verbatim>\<open>io.open\<close>, \<^verbatim>\<open>os.path\<close> and \<^verbatim>\<open>mimetypes\<close>.

  \<^item> The pure path functions (\<^verbatim>\<open>posixpath.split\<close>, \<^verbatim>\<open>join\<close>, \<^verbatim>\<open>dirname\<close>, \<^verbatim>\<open>normpath\<close>,
    \<^verbatim>\<open>isabs\<close>, and Flask's \<^verbatim>\<open>safe_join\<close>) are embedded as HOL functions on strings,
    following their library sources on a POSIX host.
  \<^item> Everything that touches the outside world (file system, MIME table, standard
    input) is a parameter: a \<open>platform\<close> record of functions, and a scripted
    standard-input stream.
  \<^item> A Python value that may be \<^verbatim>\<open>None\<close> is an \<open>option\<close>; a call that may raise
    returns \<open>exn + 'a\<close> with the exception on the left.
  \<^item> Python text is a \<open>string\<close>; the code inspects no character other than
    \<^verbatim>\<open>/\<close> and \<^verbatim>\<open>.\<close>. Raw file content is a list of bytes.
  \<^item> Functions keep their Python names; a method that several classes define, and
    the constructors, carry the name of their class in front.
\<close>

subsection \<open>Python values and exceptions\<close>

type_synonym errno = nat
type_synonym bytes = "8 word list"

definition ENOENT :: errno where "ENOENT = 2"
definition EACCES :: errno where "EACCES = 13"
definition EISDIR :: errno where "EISDIR = 21"

text \<open>
  The exceptions that cross the module's boundary. \<open>IOError\<close> carries its
  \<^verbatim>\<open>errno\<close>; it stands for Python 3's \<^verbatim>\<open>OSError\<close> as well (the same class there),
  which is what \<^verbatim>\<open>os.path.getmtime\<close> raises. \<open>NotFound\<close> is
  \<^verbatim>\<open>werkzeug.exceptions.NotFound\<close>, raised by \<^verbatim>\<open>safe_join\<close>.
\<close>

datatype exn = NotFound | IOError errno | UnicodeDecodeError | TypeError

text \<open>What \<^verbatim>\<open>read\<close> hands back: decoded text or raw bytes.\<close>

datatype content = Text string | Bytes bytes

text \<open>
  \<^verbatim>\<open>is_binary\<close> returns the value of \<^verbatim>\<open>mimetype and mimetype.startswith('image/')\<close>,
  which is \<^verbatim>\<open>None\<close>, a string or a boolean; callers only test its truth value.
\<close>

datatype pyval = PyNone | PyStr string | PyBool bool

fun truthy :: "pyval \<Rightarrow> bool" where
  "truthy PyNone = False"
| "truthy (PyStr s) = (s \<noteq> [])"
| "truthy (PyBool b) = b"

subsection \<open>String methods\<close>

definition sep :: string where "sep = ''/''"

definition startswith :: "string \<Rightarrow> string \<Rightarrow> bool" where
  "startswith s p = (take (length p) s = p)"

definition endswith :: "string \<Rightarrow> string \<Rightarrow> bool" where
  "endswith s p = (length p \<le> length s \<and> drop (length s - length p) s = p)"

text \<open>\<^verbatim>\<open>s.rstrip(chars)\<close>: drop every trailing character that occurs in \<open>chars\<close>.\<close>

definition rstrip :: "string \<Rightarrow> string \<Rightarrow> string" where
  "rstrip s chars = rev (dropWhile (\<lambda>c. c \<in> set chars) (rev s))"

text \<open>
  \<^verbatim>\<open>s.split('/')\<close>: the pieces between slashes. The result is never empty, so the
  first branch of the \<open>case\<close> is not taken.
\<close>

fun split_sep :: "string \<Rightarrow> string list" where
  "split_sep [] = [[]]"
| "split_sep (c # cs) =
     (if c = CHR ''/'' then [] # split_sep cs
      else (case split_sep cs of [] \<Rightarrow> [[c]] | x # xs \<Rightarrow> (c # x) # xs))"

text \<open>\<^verbatim>\<open>'/'.join(comps)\<close>.\<close>

fun join_sep :: "string list \<Rightarrow> string" where
  "join_sep [] = []"
| "join_sep [c] = c"
| "join_sep (c # d # cs) = c @ sep @ join_sep (d # cs)"

subsection \<open>\<^verbatim>\<open>posixpath\<close>\<close>

definition isabs :: "string \<Rightarrow> bool" where
  "isabs s = startswith s sep"

text \<open>
  One round of the loop of \<^verbatim>\<open>posixpath.join(a, *p)\<close>, and the loop:
  \<^verbatim>\<open>
  path = a
  for b in p:
      if b.startswith(sep): path = b
      elif not path or path.endswith(sep): path += b
      else: path += sep + b
  return path
  \<close>
\<close>

definition join_step :: "string \<Rightarrow> string \<Rightarrow> string" where
  "join_step path b =
     (if startswith b sep then b
      else if path = [] \<or> endswith path sep then path @ b
      else path @ sep @ b)"

definition os_path_join :: "string \<Rightarrow> string list \<Rightarrow> string" where
  "os_path_join a p = foldl join_step a p"

text \<open>\<^verbatim>\<open>p.rfind('/') + 1\<close>: the index just behind the last slash, 0 without one.\<close>

definition rfind_sep_succ :: "string \<Rightarrow> nat" where
  "rfind_sep_succ p = length p - length (takeWhile (\<lambda>c. c \<noteq> CHR ''/'') (rev p))"

text \<open>
  \<^verbatim>\<open>posixpath.split\<close> and \<^verbatim>\<open>posixpath.dirname\<close>:
  \<^verbatim>\<open>
  i = p.rfind(sep) + 1
  head, tail = p[:i], p[i:]
  if head and head != sep*len(head):
      head = head.rstrip(sep)
  return head, tail          # dirname: return head
  \<close>
  \<open>strip_head\<close> is the conditional they share: trailing slashes go unless the head
  is the root.
\<close>

definition strip_head :: "string \<Rightarrow> string" where
  "strip_head head =
     (if head \<noteq> [] \<and> head \<noteq> replicate (length head) (CHR ''/'') then rstrip head sep else head)"

definition posixpath_split :: "string \<Rightarrow> string \<times> string" where
  "posixpath_split p =
     (let i = rfind_sep_succ p; head = take i p; tail = drop i p
      in (strip_head head, tail))"

definition dirname :: "string \<Rightarrow> string" where
  "dirname p = (let i = rfind_sep_succ p; head = take i p in strip_head head)"

text \<open>
  \<^verbatim>\<open>posixpath.normpath\<close>:
  \<^verbatim>\<open>
  if path == '': return '.'
  initial_slashes = path.startswith('/')
  if initial_slashes and path.startswith('//') and not path.startswith('///'):
      initial_slashes = 2
  comps = path.split('/')
  new_comps = []
  for comp in comps:
      if comp in ('', '.'): continue
      if (comp != '..' or (not initial_slashes and not new_comps) or
           (new_comps and new_comps[-1] == '..')):
          new_comps.append(comp)
      elif new_comps:
          new_comps.pop()
  path = '/'.join(new_comps)
  if initial_slashes: path = '/'*initial_slashes + path
  return path or '.'
  \<close>
  \<open>initial_slashes\<close> is 0, 1 or 2; \<open>normpath_step\<close> is the body of the loop over the
  components, \<open>new_comps\<close> growing and shrinking at its end.
\<close>

definition initial_slashes :: "string \<Rightarrow> nat" where
  "initial_slashes path =
     (if startswith path sep
      then (if startswith path (sep @ sep) \<and> \<not> startswith path (sep @ sep @ sep) then 2 else 1)
      else 0)"

definition normpath_step :: "nat \<Rightarrow> string list \<Rightarrow> string \<Rightarrow> string list" where
  "normpath_step slashes new_comps c =
     (if c = [] \<or> c = ''.'' then new_comps
      else if c \<noteq> ''..'' \<or> (slashes = 0 \<and> new_comps = [])
                \<or> (new_comps \<noteq> [] \<and> last new_comps = ''..'')
           then new_comps @ [c]
      else if new_comps \<noteq> [] then butlast new_comps
      else new_comps)"

definition normpath :: "string \<Rightarrow> string" where
  "normpath path =
     (if path = [] then ''.''
      else let slashes = initial_slashes path;
               comps = foldl (normpath_step slashes) [] (split_sep path);
               joined = replicate slashes (CHR ''/'') @ join_sep comps
           in if joined = [] then ''.'' else joined)"

subsection \<open>\<^verbatim>\<open>flask.safe_join\<close>\<close>

text \<open>
  Flask's helper in the two-argument form the module calls (Flask 0.10), on a POSIX
  host, where the list of alternative separators is empty:
  \<^verbatim>\<open>
  filename = posixpath.normpath(filename)
  for sep in _os_alt_seps:
      if sep in filename: raise NotFound()
  if os.path.isabs(filename) or filename == '..' or filename.startswith('../'):
      raise NotFound()
  return os.path.join(directory, filename)
  \<close>
\<close>

definition safe_join :: "string \<Rightarrow> string \<Rightarrow> exn + string" where
  "safe_join directory filename =
     (let filename = normpath filename
      in if isabs filename \<or> filename = ''..'' \<or> startswith filename ''../''
         then Inl NotFound
         else Inr (os_path_join directory [filename]))"

subsection \<open>The platform\<close>

text \<open>
  The calls that look at the world, as the module makes them:
  \<^verbatim>\<open>os.path.isdir\<close>, \<^verbatim>\<open>os.path.isfile\<close>, \<^verbatim>\<open>os.path.getmtime\<close>,
  \<^verbatim>\<open>io.open(f, 'rt', encoding='utf-8').read()\<close>, \<^verbatim>\<open>io.open(f, 'rb').read()\<close>
  and the first component of \<^verbatim>\<open>mimetypes.guess_type\<close>.
\<close>

record platform =
  isdir :: "string \<Rightarrow> bool"
  isfile :: "string \<Rightarrow> bool"
  getmtime :: "string \<Rightarrow> exn + real"
  open_text :: "string \<Rightarrow> exn + string"
  open_binary :: "string \<Rightarrow> exn + bytes"
  guess_type :: "string \<Rightarrow> string option"

subsection \<open>\<^verbatim>\<open>grip.constants\<close> and \<^verbatim>\<open>grip.resolver\<close>\<close>

text \<open>
  Modelled from the spec: \<^verbatim>\<open>DEFAULT_FILENAMES\<close> of \<^verbatim>\<open>grip/constants.py\<close>, which is
  not among the sources. The spec (section 6) lists the candidates in priority order.
\<close>

definition DEFAULT_FILENAMES :: "string list" where
  "DEFAULT_FILENAMES =
     [''README.md'', ''README.rst'', ''README.markdown'', ''README.txt'', ''README'']"

text \<open>
  Modelled from the spec: \<^verbatim>\<open>find_file\<close> of \<^verbatim>\<open>grip/resolver.py\<close>, which is not among
  the sources. The spec (section 4.2): given a directory, go through the candidates
  in order and return the first that exists as a regular file within that directory,
  or nothing; no descent into subdirectories.
\<close>

fun find_in :: "platform \<Rightarrow> string \<Rightarrow> string list \<Rightarrow> string option" where
  "find_in P path [] = None"
| "find_in P path (filename # rest) =
     (let full_path = os_path_join path [filename]
      in if isfile P full_path then Some full_path else find_in P path rest)"

definition find_file :: "platform \<Rightarrow> string \<Rightarrow> string option" where
  "find_file P path = find_in P path DEFAULT_FILENAMES"

subsection \<open>\<^verbatim>\<open>ReadmeReader\<close>: the shared defaults\<close>

definition mimetype_for :: "platform \<Rightarrow> string option \<Rightarrow> string option" where
  "mimetype_for P subpath =
     (case subpath of None \<Rightarrow> None | Some s \<Rightarrow> guess_type P s)"

definition ReadmeReader_normalize :: "string option \<Rightarrow> string option" where
  "ReadmeReader_normalize subpath = subpath"

definition ReadmeReader_filename_for :: "string option \<Rightarrow> string option" where
  "ReadmeReader_filename_for subpath = subpath"

definition ReadmeReader_is_binary :: "string option \<Rightarrow> pyval" where
  "ReadmeReader_is_binary subpath = PyBool False"

definition ReadmeReader_last_updated :: "string option \<Rightarrow> real option" where
  "ReadmeReader_last_updated subpath = None"

subsection \<open>\<^verbatim>\<open>DirectoryReader\<close>\<close>

record directory_reader =
  path :: string
  filename :: string
  directory :: string

text \<open>
  The constructor. \<^verbatim>\<open>path\<close> defaults to \<^verbatim>\<open>None\<close>, on which
  \<^verbatim>\<open>os.path.dirname\<close> raises; the file name is not resolved (the source's TODO).
\<close>

definition DirectoryReader_init :: "string option \<Rightarrow> exn + directory_reader" where
  "DirectoryReader_init p =
     (case p of
        None \<Rightarrow> Inl TypeError
      | Some in_filename \<Rightarrow>
          Inr \<lparr>path = in_filename, filename = in_filename, directory = dirname in_filename\<rparr>)"

definition read_text_file :: "platform \<Rightarrow> string \<Rightarrow> exn + content option" where
  "read_text_file P f =
     (case open_text P f of
        Inr t \<Rightarrow> Inr (Some (Text t))
      | Inl (IOError e) \<Rightarrow> if e = ENOENT then Inr None else Inl (IOError e)
      | Inl ex \<Rightarrow> Inl ex)"

definition read_binary_file :: "platform \<Rightarrow> string \<Rightarrow> exn + content option" where
  "read_binary_file P f =
     (case open_binary P f of
        Inr b \<Rightarrow> Inr (Some (Bytes b))
      | Inl (IOError e) \<Rightarrow> if e = ENOENT then Inr None else Inl (IOError e)
      | Inl ex \<Rightarrow> Inl ex)"

definition filename_for :: "directory_reader \<Rightarrow> string option \<Rightarrow> string" where
  "filename_for r subpath =
     (case subpath of
        None \<Rightarrow> filename r
      | Some s \<Rightarrow> (let (head, tail) = posixpath_split s in os_path_join head [tail]))"

definition DirectoryReader_normalize ::
    "platform \<Rightarrow> directory_reader \<Rightarrow> string option \<Rightarrow> exn + string option" where
  "DirectoryReader_normalize P r subpath =
     (case subpath of
        None \<Rightarrow> Inr None
      | Some s \<Rightarrow>
          (case safe_join (directory r) (filename_for r (Some s)) of
             Inl ex \<Rightarrow> Inl ex
           | Inr f \<Rightarrow>
               if \<not> isdir P f then Inr (Some (rstrip s sep))
               else if \<not> endswith s sep then Inr (Some (s @ sep))
               else Inr (Some s)))"

definition last_updated :: "platform \<Rightarrow> directory_reader \<Rightarrow> string option \<Rightarrow> exn + real" where
  "last_updated P r subpath =
     getmtime P (case subpath of Some s \<Rightarrow> s | None \<Rightarrow> filename r)"

definition is_binary :: "platform \<Rightarrow> string option \<Rightarrow> pyval" where
  "is_binary P subpath =
     (case mimetype_for P subpath of
        None \<Rightarrow> PyNone
      | Some mimetype \<Rightarrow>
          if mimetype = [] then PyStr mimetype else PyBool (startswith mimetype ''image/''))"

text \<open>
  \<^verbatim>\<open>read\<close>. The file name is replaced by what \<^verbatim>\<open>find_file\<close> returns when it names a
  directory, and \<^verbatim>\<open>None\<close> from \<^verbatim>\<open>find_file\<close> ends the call with \<^verbatim>\<open>None\<close>; text or
  binary is decided by \<^verbatim>\<open>is_binary\<close> of the subpath.
\<close>

definition DirectoryReader_read ::
    "platform \<Rightarrow> directory_reader \<Rightarrow> string option \<Rightarrow> exn + content option" where
  "DirectoryReader_read P r subpath =
     (case subpath of
        None \<Rightarrow> read_text_file P (filename r)
      | Some s \<Rightarrow>
          (case safe_join (directory r) (filename_for r (Some s)) of
             Inl ex \<Rightarrow> Inl ex
           | Inr f \<Rightarrow>
               (case (if isdir P f then find_file P f else Some f) of
                  None \<Rightarrow> Inr None
                | Some f' \<Rightarrow>
                    let is_text = \<not> truthy (is_binary P (Some s))
                    in if is_text then read_text_file P f' else read_binary_file P f')))"

subsection \<open>\<^verbatim>\<open>TextReader\<close>\<close>

text \<open>The fields \<^verbatim>\<open>text\<close> and \<^verbatim>\<open>filename\<close>.\<close>

record text_reader =
  reader_text :: "string option"
  reader_filename :: "string option"

definition TextReader_init :: "string option \<Rightarrow> string option \<Rightarrow> text_reader" where
  "TextReader_init t f = \<lparr>reader_text = t, reader_filename = f\<rparr>"

definition TextReader_filename_for :: "text_reader \<Rightarrow> string option \<Rightarrow> string option" where
  "TextReader_filename_for r subpath =
     (case subpath of
        Some s \<Rightarrow> None
      | None \<Rightarrow>
          (case reader_filename r of
             None \<Rightarrow> Some (hd DEFAULT_FILENAMES)
           | Some f \<Rightarrow> Some (if f \<noteq> [] then f else hd DEFAULT_FILENAMES)))"

definition TextReader_read :: "text_reader \<Rightarrow> string option \<Rightarrow> string option" where
  "TextReader_read r subpath = (case subpath of Some s \<Rightarrow> None | None \<Rightarrow> reader_text r)"

subsection \<open>\<^verbatim>\<open>StdinReader\<close>\<close>

text \<open>
  Standard input is a script: the outcomes that successive calls of
  \<^verbatim>\<open>sys.stdin.read()\<close> will have (an exception, \<^verbatim>\<open>None\<close> or a string), with a counter
  of the calls made. A stream whose script is used up is at end of input and gives
  the empty string. \<open>major\<close> is \<^verbatim>\<open>sys.version_info.major\<close> and \<open>decode\<close> is
  \<^verbatim>\<open>text.decode(sys.stdin.encoding)\<close>, which Python 2 needs and which may raise.
\<close>

record stdin_world =
  script :: "(exn + string option) list"
  calls :: nat

record interpreter =
  major :: nat
  decode :: "string \<Rightarrow> exn + string"

definition sys_stdin_read :: "stdin_world \<Rightarrow> (exn + string option) \<times> stdin_world" where
  "sys_stdin_read w =
     (case script w of
        [] \<Rightarrow> (Inr (Some []), w\<lparr>calls := calls w + 1\<rparr>)
      | x # xs \<Rightarrow> (x, w\<lparr>script := xs, calls := calls w + 1\<rparr>))"

definition read_stdin :: "interpreter \<Rightarrow> stdin_world \<Rightarrow> (exn + string option) \<times> stdin_world" where
  "read_stdin I w =
     (case sys_stdin_read w of
        (Inl ex, w') \<Rightarrow> (Inl ex, w')
      | (Inr None, w') \<Rightarrow> (Inr None, w')
      | (Inr (Some t), w') \<Rightarrow>
          if major I < 3
          then (case decode I t of Inl ex \<Rightarrow> (Inl ex, w') | Inr u \<Rightarrow> (Inr (Some u), w'))
          else (Inr (Some t), w'))"

definition StdinReader_init :: "string option \<Rightarrow> text_reader" where
  "StdinReader_init f = TextReader_init None f"

text \<open>
  \<^verbatim>\<open>StdinReader.read\<close> changes the reader (its \<^verbatim>\<open>text\<close>) and the stream; both are
  passed in and returned. When \<^verbatim>\<open>read_stdin\<close> raises, the assignment does not happen.
\<close>

definition StdinReader_read ::
    "interpreter \<Rightarrow> string option \<Rightarrow> text_reader \<times> stdin_world
       \<Rightarrow> (exn + string option) \<times> text_reader \<times> stdin_world" where
  "StdinReader_read I subpath s =
     (let (r, w) = s
      in if reader_text r = None \<and> subpath = None
         then (case read_stdin I w of
                 (Inl ex, w') \<Rightarrow> (Inl ex, r, w')
               | (Inr t, w') \<Rightarrow>
                   (let r' = r\<lparr>reader_text := t\<rparr> in (Inr (TextReader_read r' subpath), r', w')))
         else (Inr (TextReader_read r subpath), r, w))"

text \<open>A sequence of reads, one after the other, with their results.\<close>

fun StdinReader_reads ::
    "interpreter \<Rightarrow> string option list \<Rightarrow> text_reader \<times> stdin_world
       \<Rightarrow> (exn + string option) list \<times> text_reader \<times> stdin_world" where
  "StdinReader_reads I [] s = ([], s)"
| "StdinReader_reads I (subpath # rest) s =
     (let (res, s') = StdinReader_read I subpath s;
          (ress, s'') = StdinReader_reads I rest s'
      in (res # ress, s''))"

subsection \<open>Vocabulary of the properties\<close>

text \<open>
  The components of a path that name something: the pieces between slashes, without
  the empty ones and the dots that stay in place.
\<close>

definition path_parts :: "string \<Rightarrow> string list" where
  "path_parts p = filter (\<lambda>c. c \<noteq> [] \<and> c \<noteq> ''.'') (split_sep p)"

definition ne_comps :: "string \<Rightarrow> string list" where
  "ne_comps p = filter (\<lambda>c. c \<noteq> []) (split_sep p)"

text \<open>
  A path lies within the subtree of a base directory when it is walked from the same
  starting point (both absolute or both relative), passes through the components of
  the base, and from there on only descends: no component behind the base is
  \<^verbatim>\<open>..\<close>. This is containment of the name; it does not follow symbolic links.
\<close>

definition within_subtree :: "string \<Rightarrow> string \<Rightarrow> bool" where
  "within_subtree base p \<longleftrightarrow>
     isabs p = isabs base \<and>
     take (length (path_parts base)) (path_parts p) = path_parts base \<and>
     ''..'' \<notin> set (drop (length (path_parts base)) (path_parts p))"

text \<open>The content is what the platform gives for the file at \<open>p\<close>, in the matching mode.\<close>

definition came_from :: "platform \<Rightarrow> string \<Rightarrow> content \<Rightarrow> bool" where
  "came_from P p c =
     (case c of Text t \<Rightarrow> open_text P p = Inr t | Bytes b \<Rightarrow> open_binary P p = Inr b)"

text \<open>The invariant of the loop of \<open>normpath\<close> on a relative path: steps up come first.\<close>

definition upward_first :: "string list \<Rightarrow> bool" where
  "upward_first cs \<longleftrightarrow>
     (\<forall>c\<in>set cs. c \<noteq> [] \<and> c \<noteq> ''.'') \<and> (''..'' \<in> set cs \<longrightarrow> hd cs = ''..'')"

definition trailing_slashes :: "string \<Rightarrow> nat" where
  "trailing_slashes s = length (takeWhile (\<lambda>c. c = CHR ''/'') (rev s))"

text \<open>\<^verbatim>\<open>normalize(normalize(subpath))\<close>, an exception of the inner call passing through.\<close>

definition normalize_twice ::
    "platform \<Rightarrow> directory_reader \<Rightarrow> string option \<Rightarrow> exn + string option" where
  "normalize_twice P r subpath =
     (case DirectoryReader_normalize P r subpath of
        Inl ex \<Rightarrow> Inl ex
      | Inr t \<Rightarrow> DirectoryReader_normalize P r t)"

subsection \<open>An example tree\<close>

text \<open>
  A directory \<^verbatim>\<open>/d\<close> holding \<^verbatim>\<open>README.md\<close>, an unreadable \<^verbatim>\<open>secret.md\<close> and a
  directory \<^verbatim>\<open>images\<close> with the single file \<^verbatim>\<open>README.png\<close>; the process runs
  somewhere else, so no relative name exists. The MIME table knows two extensions.
\<close>

definition example_types :: "string \<Rightarrow> string option" where
  "example_types s =
     (if endswith s ''.png'' then Some ''image/png''
      else if endswith s ''.md'' then Some ''text/markdown''
      else None)"

definition example_platform :: "string \<Rightarrow> bytes \<Rightarrow> platform" where
  "example_platform hello png =
     \<lparr>isdir = (\<lambda>p. p \<in> set [''/d'', ''/d/.'', ''/d/images'']),
      isfile = (\<lambda>p. p \<in> set [''/d/README.md'', ''/d/secret.md'', ''/d/images/README.png'']),
      getmtime = (\<lambda>p. if p \<in> set [''/d/README.md'', ''/d/secret.md'', ''/d/images/README.png'']
                       then Inr 1500000000
                       else if p \<in> set [''/d'', ''/d/.'', ''/d/images''] then Inr 1400000000
                       else Inl (IOError ENOENT)),
      open_text = (\<lambda>p. if p = ''/d/README.md'' then Inr hello
                        else if p = ''/d/secret.md'' then Inl (IOError EACCES)
                        else if p = ''/d/images/README.png'' then Inl UnicodeDecodeError
                        else if p \<in> set [''/d'', ''/d/.'', ''/d/images''] then Inl (IOError EISDIR)
                        else Inl (IOError ENOENT)),
      open_binary = (\<lambda>p. if p = ''/d/README.md'' then Inr (map of_char hello)
                        else if p = ''/d/secret.md'' then Inl (IOError EACCES)
                        else if p = ''/d/images/README.png'' then Inr png
                        else if p \<in> set [''/d'', ''/d/.'', ''/d/images''] then Inl (IOError EISDIR)
                        else Inl (IOError ENOENT)),
      guess_type = example_types\<rparr>"

definition example_reader :: directory_reader where
  "example_reader = \<lparr>path = ''/d/README.md'', filename = ''/d/README.md'', directory = ''/d''\<rparr>"


text \<open>
  A second tree, in which nothing can be read: \<^verbatim>\<open>/d\<close> holds \<^verbatim>\<open>secret.md\<close>,
  \<^verbatim>\<open>secret.png\<close> and a directory \<^verbatim>\<open>private\<close> with a \<^verbatim>\<open>README.md\<close>, all of them
  refusing permission.
\<close>

definition locked_platform :: platform where
  "locked_platform =
     \<lparr>isdir = (\<lambda>p. p \<in> set [''/d'', ''/d/.'', ''/d/private'']),
      isfile = (\<lambda>p. p \<in> set [''/d/secret.md'', ''/d/secret.png'', ''/d/private/README.md'']),
      getmtime = (\<lambda>p. if p \<in> set [''/d/secret.md'', ''/d/secret.png'', ''/d/private/README.md'',
                                     ''/d'', ''/d/.'', ''/d/private'']
                       then Inr 1500000000 else Inl (IOError ENOENT)),
      open_text = (\<lambda>p. if p \<in> set [''/d/secret.md'', ''/d/secret.png'', ''/d/private/README.md'']
                        then Inl (IOError EACCES)
                        else if p \<in> set [''/d'', ''/d/.'', ''/d/private''] then Inl (IOError EISDIR)
                        else Inl (IOError ENOENT)),
      open_binary = (\<lambda>p. if p \<in> set [''/d/secret.md'', ''/d/secret.png'', ''/d/private/README.md'']
                        then Inl (IOError EACCES)
                        else if p \<in> set [''/d'', ''/d/.'', ''/d/private''] then Inl (IOError EISDIR)
                        else Inl (IOError ENOENT)),
      guess_type = example_types\<rparr>"

text \<open>A Python 3 interpreter: input arrives decoded, nothing is left to decode.\<close>

definition python3 :: interpreter where
  "python3 = \<lparr>major = 3, decode = Inr\<rparr>"

section \<open>Properties\<close>

subsection \<open>Unfolding the model on concrete input\<close>

lemmas path_defs = sep_def startswith_def endswith_def rstrip_def isabs_def join_step_def
  os_path_join_def rfind_sep_succ_def strip_head_def posixpath_split_def dirname_def
  initial_slashes_def normpath_step_def normpath_def safe_join_def Let_def

lemmas reader_defs = DirectoryReader_init_def read_text_file_def read_binary_file_def
  filename_for_def DirectoryReader_normalize_def last_updated_def is_binary_def mimetype_for_def
  DirectoryReader_read_def find_file_def DEFAULT_FILENAMES_def ENOENT_def EISDIR_def EACCES_def

lemmas example_defs = example_types_def example_platform_def example_reader_def

subsection \<open>Splitting and joining at slashes\<close>

lemma split_sep_nonempty [simp]: "split_sep s \<noteq> []"
  by (induction s) (auto split: list.splits)

lemma split_sep_Cons:
  "split_sep (c # cs) =
     (if c = CHR ''/'' then [] # split_sep cs else (c # hd (split_sep cs)) # tl (split_sep cs))"
  by (cases "split_sep cs") simp_all

lemma split_sep_append_sep: "split_sep (a @ CHR ''/'' # b) = split_sep a @ split_sep b"
  by (induction a) (auto simp: split_sep_Cons simp del: split_sep.simps(2))

lemma split_sep_noslash: "CHR ''/'' \<notin> set s \<Longrightarrow> split_sep s = [s]"
  by (induction s) (auto simp: split_sep_Cons simp del: split_sep.simps(2))

lemma split_sep_elems: "c \<in> set (split_sep s) \<Longrightarrow> CHR ''/'' \<notin> set c"
proof (induction s arbitrary: c)
  case Nil
  then show ?case by simp
next
  case (Cons x xs)
  show ?case
  proof (cases "x = CHR ''/''")
    case True
    with Cons show ?thesis by auto
  next
    case False
    have ne: "split_sep xs \<noteq> []" by simp
    from Cons.prems False have "c = x # hd (split_sep xs) \<or> c \<in> set (tl (split_sep xs))"
      by (simp add: split_sep_Cons del: split_sep.simps(2))
    then show ?thesis
    proof
      assume "c = x # hd (split_sep xs)"
      moreover have "CHR ''/'' \<notin> set (hd (split_sep xs))"
        using Cons.IH [of "hd (split_sep xs)"] ne by simp
      ultimately show ?thesis using False by auto
    next
      assume "c \<in> set (tl (split_sep xs))"
      then have "c \<in> set (split_sep xs)" using ne by (meson list.set_sel(2))
      then show ?thesis by (rule Cons.IH)
    qed
  qed
qed

lemma split_sep_join_sep:
  "cs \<noteq> [] \<Longrightarrow> \<forall>c\<in>set cs. CHR ''/'' \<notin> set c \<Longrightarrow> split_sep (join_sep cs) = cs"
proof (induction cs rule: join_sep.induct)
  case 1
  then show ?case by simp
next
  case (2 c)
  then show ?case by (simp add: split_sep_noslash)
next
  case (3 c d cs)
  then show ?case by (simp add: sep_def split_sep_append_sep split_sep_noslash)
qed

lemma startswith_sep: "startswith s sep \<longleftrightarrow> (\<exists>t. s = CHR ''/'' # t)"
  by (cases s) (auto simp: startswith_def sep_def)

lemma endswith_sep: "endswith s sep \<longleftrightarrow> (\<exists>t. s = t @ ''/'')"
proof (cases s rule: rev_cases)
  case Nil
  then show ?thesis by (simp add: endswith_def sep_def)
next
  case (snoc ys y)
  then show ?thesis by (auto simp: endswith_def sep_def)
qed

lemma join_step_relative:
  "\<not> startswith b sep \<Longrightarrow>
     os_path_join a [b] = (if a = [] \<or> endswith a sep then a @ b else a @ sep @ b)"
  by (simp add: os_path_join_def join_step_def)

lemma path_parts_append_sep: "path_parts (a @ CHR ''/'' # b) = path_parts a @ path_parts b"
  by (simp add: path_parts_def split_sep_append_sep)

lemma path_parts_Nil [simp]: "path_parts [] = []"
  by (simp add: path_parts_def)

lemma path_parts_join:
  assumes "\<not> startswith b sep"
  shows "path_parts (os_path_join a [b]) = path_parts a @ path_parts b"
proof (cases "a = []")
  case True
  with assms show ?thesis by (simp add: join_step_relative)
next
  case False
  show ?thesis
  proof (cases "endswith a sep")
    case True
    then obtain t where t: "a = t @ ''/''" by (auto simp: endswith_sep)
    have "path_parts a = path_parts t" using path_parts_append_sep [of t "[]"] t by simp
    moreover have "os_path_join a [b] = t @ CHR ''/'' # b"
      using assms True t by (simp add: join_step_relative)
    ultimately show ?thesis by (simp add: path_parts_append_sep)
  next
    case nend: False
    with assms False have "os_path_join a [b] = a @ CHR ''/'' # b"
      by (simp add: join_step_relative sep_def)
    then show ?thesis by (simp add: path_parts_append_sep)
  qed
qed

lemma isabs_join:
  assumes "\<not> startswith b sep"
  shows "isabs (os_path_join a [b]) = isabs a"
proof (cases a)
  case Nil
  with assms show ?thesis by (simp add: join_step_relative isabs_def startswith_sep)
next
  case (Cons x xs)
  with assms show ?thesis by (auto simp: join_step_relative isabs_def startswith_sep)
qed

lemma within_subtree_iff:
  "within_subtree base p \<longleftrightarrow>
     isabs p = isabs base \<and>
     (\<exists>rest. path_parts p = path_parts base @ rest \<and> ''..'' \<notin> set rest)"
proof -
  have "take (length xs) ys = xs \<and> z \<notin> set (drop (length xs) ys)
          \<longleftrightarrow> (\<exists>rest. ys = xs @ rest \<and> z \<notin> set rest)"
    for xs ys :: "string list" and z
  proof
    assume h: "take (length xs) ys = xs \<and> z \<notin> set (drop (length xs) ys)"
    have "ys = take (length xs) ys @ drop (length xs) ys" by simp
    with h have "ys = xs @ drop (length xs) ys" by simp
    with h show "\<exists>rest. ys = xs @ rest \<and> z \<notin> set rest" by blast
  next
    assume "\<exists>rest. ys = xs @ rest \<and> z \<notin> set rest"
    then show "take (length xs) ys = xs \<and> z \<notin> set (drop (length xs) ys)" by auto
  qed
  then show ?thesis unfolding within_subtree_def by simp
qed

lemma within_subtree_join:
  assumes "within_subtree base f" "\<not> startswith b sep" "''..'' \<notin> set (path_parts b)"
  shows "within_subtree base (os_path_join f [b])"
proof -
  from assms(1) obtain rest where
    r: "isabs f = isabs base" "path_parts f = path_parts base @ rest" "''..'' \<notin> set rest"
    unfolding within_subtree_iff by blast
  have "path_parts (os_path_join f [b]) = path_parts base @ (rest @ path_parts b)"
    using assms(2) r(2) by (simp add: path_parts_join)
  moreover have "''..'' \<notin> set (rest @ path_parts b)" using r(3) assms(3) by simp
  moreover have "isabs (os_path_join f [b]) = isabs base" using assms(2) r(1) by (simp add: isabs_join)
  ultimately show ?thesis unfolding within_subtree_iff by blast
qed

lemma within_subtree_refl: "within_subtree base base"
  by (simp add: within_subtree_def)


subsection \<open>The loop of \<open>normpath\<close>\<close>

lemma normpath_step_subset: "set (normpath_step k acc x) \<subseteq> set acc \<union> {x}"
  by (auto simp: normpath_step_def dest: in_set_butlastD)

lemma normpath_fold_subset: "set (foldl (normpath_step k) acc xs) \<subseteq> set acc \<union> set xs"
proof (induction xs arbitrary: acc)
  case Nil
  then show ?case by simp
next
  case (Cons x xs)
  have "set (foldl (normpath_step k) (normpath_step k acc x) xs)
          \<subseteq> set (normpath_step k acc x) \<union> set xs" by (rule Cons.IH)
  with normpath_step_subset [of k acc x] show ?case by auto
qed

lemma upward_first_step:
  assumes "upward_first acc"
  shows "upward_first (normpath_step 0 acc x)"
proof -
  consider (skip) "x = [] \<or> x = ''.''"
    | (push) "x \<noteq> []" "x \<noteq> ''.''" "x \<noteq> ''..'' \<or> acc = [] \<or> last acc = ''..''"
    | (pop) "x = ''..''" "acc \<noteq> []" "last acc \<noteq> ''..''"
    by blast
  then show ?thesis
  proof cases
    case skip
    with assms show ?thesis by (auto simp: normpath_step_def)
  next
    case push
    then have eq: "normpath_step 0 acc x = acc @ [x]" by (auto simp: normpath_step_def)
    show ?thesis
    proof (cases "acc = []")
      case True
      with push eq show ?thesis by (simp add: upward_first_def)
    next
      case False
      have "''..'' \<in> set acc" if "''..'' \<in> set (acc @ [x])"
      proof (cases "x = ''..''")
        case True
        with push(3) False have "last acc = ''..''" by simp
        with last_in_set [OF False] show ?thesis by simp
      next
        case neq: False
        with that show ?thesis by simp
      qed
      with assms push False show ?thesis unfolding eq upward_first_def by auto
    qed
  next
    case pop
    then have eq: "normpath_step 0 acc x = butlast acc" by (auto simp: normpath_step_def)
    have "hd (butlast acc) = ''..''" if "''..'' \<in> set (butlast acc)"
    proof -
      from that have "''..'' \<in> set acc" by (rule in_set_butlastD)
      with assms have "hd acc = ''..''" by (simp add: upward_first_def)
      moreover from that have "butlast acc \<noteq> []" by auto
      then have "hd (butlast acc) = hd acc" by (cases acc) auto
      ultimately show ?thesis by simp
    qed
    moreover have "\<forall>c\<in>set (butlast acc). c \<noteq> [] \<and> c \<noteq> ''.''"
      using assms by (auto simp: upward_first_def dest: in_set_butlastD)
    ultimately show ?thesis unfolding eq upward_first_def by blast
  qed
qed

lemma upward_first_fold:
  "upward_first acc \<Longrightarrow> upward_first (foldl (normpath_step 0) acc xs)"
  by (induction xs arbitrary: acc) (simp_all add: upward_first_step)

lemma normpath_step_empty [simp]: "normpath_step k acc [] = acc"
  by (simp add: normpath_step_def)

lemma normpath_fold_filter:
  "foldl (normpath_step k) acc (filter (\<lambda>c. c \<noteq> []) xs) = foldl (normpath_step k) acc xs"
  by (induction xs arbitrary: acc) simp_all

lemma join_sep_eq_Nil: "\<forall>c\<in>set cs. c \<noteq> [] \<Longrightarrow> join_sep cs = [] \<longleftrightarrow> cs = []"
  by (induction cs rule: join_sep.induct) (auto simp: sep_def)

lemma initial_slashes_relative: "\<not> startswith p sep \<Longrightarrow> initial_slashes p = 0"
  by (simp add: initial_slashes_def)

lemma normpath_relative:
  assumes "\<not> startswith p sep"
  shows "normpath p =
           (let cs = foldl (normpath_step 0) [] (ne_comps p)
            in if cs = [] then ''.'' else join_sep cs)"
proof (cases "p = []")
  case True
  then show ?thesis by (simp add: normpath_def ne_comps_def)
next
  case False
  let ?cs = "foldl (normpath_step 0) [] (split_sep p)"
  have "upward_first ?cs" by (rule upward_first_fold) (simp add: upward_first_def)
  then have "join_sep ?cs = [] \<longleftrightarrow> ?cs = []"
    by (intro join_sep_eq_Nil) (simp add: upward_first_def)
  with False assms show ?thesis
    by (simp add: normpath_def Let_def initial_slashes_relative ne_comps_def normpath_fold_filter)
qed

lemma normpath_absolute:
  assumes "startswith p sep"
  shows "isabs (normpath p)"
proof -
  from assms have "initial_slashes p \<noteq> 0" by (simp add: initial_slashes_def)
  then obtain k where k: "initial_slashes p = Suc k" by (cases "initial_slashes p") auto
  from assms have "p \<noteq> []" by (auto simp: startswith_sep)
  then show ?thesis by (simp add: normpath_def Let_def k isabs_def startswith_sep)
qed

text \<open>What a file name that passes the checks of safe_join looks like.\<close>

lemma normpath_accepted:
  assumes "\<not> isabs (normpath f)" "normpath f \<noteq> ''..''" "\<not> startswith (normpath f) ''../''"
  shows "''..'' \<notin> set (path_parts (normpath f))"
proof -
  have rel: "\<not> startswith f sep" using assms(1) normpath_absolute by blast
  let ?cs = "foldl (normpath_step 0) [] (ne_comps f)"
  have uf: "upward_first ?cs" by (rule upward_first_fold) (simp add: upward_first_def)
  have noslash: "\<forall>c\<in>set ?cs. CHR ''/'' \<notin> set c"
    using normpath_fold_subset [of 0 "[]" "ne_comps f"]
    by (auto simp: ne_comps_def dest: split_sep_elems)
  show ?thesis
  proof (cases "?cs = []")
    case True
    with rel have "normpath f = ''.''" by (simp add: normpath_relative)
    then show ?thesis by (simp add: path_parts_def)
  next
    case False
    with rel have n: "normpath f = join_sep ?cs" by (simp add: normpath_relative Let_def)
    have parts: "path_parts (normpath f) = ?cs"
      using uf False noslash unfolding n path_parts_def
      by (simp add: split_sep_join_sep upward_first_def)
    show ?thesis
    proof
      assume "''..'' \<in> set (path_parts (normpath f))"
      with parts uf have h: "hd ?cs = ''..''" by (simp add: upward_first_def)
      from False obtain c rest where cs: "?cs = c # rest" by (cases ?cs) auto
      with h have c: "c = ''..''" by simp
      show False
      proof (cases rest)
        case Nil
        with cs c n assms(2) show False by simp
      next
        case (Cons d ds)
        with cs c n have "normpath f = ''..'' @ sep @ join_sep (d # ds)" by simp
        then have "startswith (normpath f) ''../''" by (simp add: startswith_def sep_def)
        with assms(3) show False by simp
      qed
    qed
  qed
qed

lemma safe_join_within:
  assumes "safe_join d f = Inr p"
  shows "within_subtree d p"
proof -
  from assms have acc: "\<not> isabs (normpath f)" "normpath f \<noteq> ''..''"
      "\<not> startswith (normpath f) ''../''" and p: "p = os_path_join d [normpath f]"
    by (auto simp: safe_join_def Let_def split: if_splits)
  have "''..'' \<notin> set (path_parts (normpath f))" using acc by (rule normpath_accepted)
  with within_subtree_join [OF within_subtree_refl, of "normpath f" d] acc(1) p
  show ?thesis by (simp add: isabs_def)
qed

lemma find_in_within:
  assumes "find_in P f cands = Some p" "\<forall>c\<in>set cands. \<not> startswith c sep \<and> ''..'' \<notin> set (path_parts c)"
    "within_subtree base f"
  shows "within_subtree base p"
  using assms
proof (induction cands)
  case Nil
  then show ?case by simp
next
  case (Cons c cs)
  show ?case
  proof (cases "isfile P (os_path_join f [c])")
    case True
    with Cons.prems have "p = os_path_join f [c]" by (simp add: Let_def)
    with Cons.prems show ?thesis by (simp add: within_subtree_join)
  next
    case False
    with Cons show ?thesis by (simp add: Let_def)
  qed
qed

lemma DEFAULT_FILENAMES_plain:
  "\<forall>c\<in>set DEFAULT_FILENAMES. \<not> startswith c sep \<and> ''..'' \<notin> set (path_parts c)"
  by (simp add: DEFAULT_FILENAMES_def startswith_def sep_def path_parts_def)

lemma find_file_within:
  "find_file P f = Some p \<Longrightarrow> within_subtree base f \<Longrightarrow> within_subtree base p"
  unfolding find_file_def using find_in_within DEFAULT_FILENAMES_plain by blast


subsection \<open>Trailing slashes and \<open>filename_for\<close>\<close>

lemma rev_split_at_last_sep:
  "take (rfind_sep_succ p) p = rev (dropWhile (\<lambda>c. c \<noteq> CHR ''/'') (rev p))"
  "drop (rfind_sep_succ p) p = rev (takeWhile (\<lambda>c. c \<noteq> CHR ''/'') (rev p))"
proof -
  let ?A = "rev (dropWhile (\<lambda>c. c \<noteq> CHR ''/'') (rev p))"
  let ?B = "rev (takeWhile (\<lambda>c. c \<noteq> CHR ''/'') (rev p))"
  have "rev p = rev ?B @ rev ?A" by simp
  then have p: "p = ?A @ ?B" by (metis rev_append rev_rev_ident)
  have "length p = length ?A + length ?B" by (subst p) simp
  then have len: "rfind_sep_succ p = length ?A" by (simp add: rfind_sep_succ_def)
  have "take (length ?A) (?A @ ?B) = ?A" "drop (length ?A) (?A @ ?B) = ?B" by simp_all
  with p len show "take (rfind_sep_succ p) p = ?A" "drop (rfind_sep_succ p) p = ?B"
    by metis+
qed

lemma tail_no_sep: "CHR ''/'' \<notin> set (drop (rfind_sep_succ p) p)"
  by (auto simp: rev_split_at_last_sep dest: set_takeWhileD)

lemma head_ends_with_sep:
  "take (rfind_sep_succ p) p = [] \<or> last (take (rfind_sep_succ p) p) = CHR ''/''"
proof -
  let ?D = "dropWhile (\<lambda>c. c \<noteq> CHR ''/'') (rev p)"
  have "?D = [] \<or> hd ?D = CHR ''/''" using hd_dropWhile [of "\<lambda>c. c \<noteq> CHR ''/''" "rev p"] by blast
  then show ?thesis by (auto simp: rev_split_at_last_sep last_rev)
qed

lemma rstrip_sep_decomp: "\<exists>n. s = rstrip s sep @ replicate n (CHR ''/'')"
proof -
  let ?T = "takeWhile (\<lambda>c. c \<in> set sep) (rev s)"
  have "\<forall>c\<in>set ?T. c = CHR ''/''" by (auto simp: sep_def dest: set_takeWhileD)
  then have T: "?T = replicate (length ?T) (CHR ''/'')" by (simp add: replicate_length_same)
  have "rev s = ?T @ dropWhile (\<lambda>c. c \<in> set sep) (rev s)" by simp
  then have "s = rstrip s sep @ rev ?T" unfolding rstrip_def by (metis rev_append rev_rev_ident)
  also have "rev ?T = replicate (length ?T) (CHR ''/'')" by (subst T) simp
  finally show ?thesis by blast
qed

lemma rstrip_sep_last: "rstrip s sep = [] \<or> last (rstrip s sep) \<noteq> CHR ''/''"
proof -
  let ?D = "dropWhile (\<lambda>c. c \<in> set sep) (rev s)"
  have "?D = [] \<or> hd ?D \<notin> set sep" using hd_dropWhile [of "\<lambda>c. c \<in> set sep" "rev s"] by blast
  then show ?thesis by (auto simp: rstrip_def last_rev sep_def)
qed

lemma rstrip_sep_not_endswith: "\<not> endswith (rstrip s sep) sep"
  using rstrip_sep_last [of s] by (auto simp: endswith_sep)

lemma rstrip_sep_id: "\<not> endswith s sep \<Longrightarrow> rstrip s sep = s"
proof (cases s rule: rev_cases)
  case Nil
  then show ?thesis by (simp add: rstrip_def)
next
  case (snoc ys y)
  assume "\<not> endswith s sep"
  with snoc have "y \<noteq> CHR ''/''" by (auto simp: endswith_sep)
  with snoc show ?thesis by (simp add: rstrip_def sep_def)
qed

lemma rstrip_sep_idem: "rstrip (rstrip s sep) sep = rstrip s sep"
  by (rule rstrip_sep_id) (rule rstrip_sep_not_endswith)

lemma ne_comps_append_sep: "ne_comps (a @ CHR ''/'' # b) = ne_comps a @ ne_comps b"
  by (simp add: ne_comps_def split_sep_append_sep)

lemma ne_comps_Nil [simp]: "ne_comps [] = []"
  by (simp add: ne_comps_def)

lemma ne_comps_slashes: "ne_comps (replicate n (CHR ''/'') @ t) = ne_comps t"
  by (induction n) (simp_all add: ne_comps_def)

lemma ne_comps_append_slashes: "ne_comps (a @ replicate n (CHR ''/'')) = ne_comps a"
proof (cases n)
  case 0
  then show ?thesis by simp
next
  case (Suc m)
  have "ne_comps (a @ CHR ''/'' # (replicate m (CHR ''/'') @ [])) = ne_comps a @ ne_comps []"
    unfolding ne_comps_append_sep ne_comps_slashes ..
  with Suc show ?thesis by simp
qed

lemma ne_comps_rstrip: "ne_comps (rstrip s sep) = ne_comps s"
proof -
  obtain n where "s = rstrip s sep @ replicate n (CHR ''/'')" using rstrip_sep_decomp by blast
  then show ?thesis using ne_comps_append_slashes [of "rstrip s sep" n] by simp
qed

lemma relative_rstrip: "\<not> startswith s sep \<Longrightarrow> \<not> startswith (rstrip s sep) sep"
proof -
  obtain n where n: "s = rstrip s sep @ replicate n (CHR ''/'')" using rstrip_sep_decomp by blast
  assume "\<not> startswith s sep"
  then show ?thesis by (subst (asm) n) (auto simp: startswith_sep)
qed

lemma normpath_rstrip:
  assumes "\<not> startswith s sep"
  shows "normpath (rstrip s sep) = normpath s"
  using assms by (simp add: normpath_relative relative_rstrip ne_comps_rstrip)

lemma normpath_append_sep:
  assumes "\<not> startswith s sep" "s \<noteq> []"
  shows "normpath (s @ sep) = normpath s"
proof -
  from assms have "\<not> startswith (s @ sep) sep" by (cases s) (auto simp: startswith_sep)
  moreover have "ne_comps (s @ sep) = ne_comps s"
    using ne_comps_append_sep [of s "[]"] by (simp add: sep_def)
  ultimately show ?thesis using assms(1) by (simp add: normpath_relative)
qed

text \<open>filename_for rewrites a subpath without changing what safe_join makes of it.\<close>

lemma filename_for_decomp:
  obtains h t where "s = h @ t" "CHR ''/'' \<notin> set t" "h = [] \<or> last h = CHR ''/''"
    "filename_for r (Some s) = os_path_join (strip_head h) [t]"
proof -
  define h where "h = take (rfind_sep_succ s) s"
  define t where "t = drop (rfind_sep_succ s) s"
  have "s = h @ t" by (simp add: h_def t_def)
  moreover have "CHR ''/'' \<notin> set t" unfolding t_def by (rule tail_no_sep)
  moreover have "h = [] \<or> last h = CHR ''/''" unfolding h_def by (rule head_ends_with_sep)
  moreover have "filename_for r (Some s) = os_path_join (strip_head h) [t]"
    by (simp add: filename_for_def posixpath_split_def Let_def h_def t_def)
  ultimately show ?thesis by (rule that)
qed

lemma strip_head_decomp:
  assumes "h \<noteq> []" "h \<noteq> replicate (length h) (CHR ''/'')"
  obtains n where "h = strip_head h @ replicate n (CHR ''/'')" "strip_head h \<noteq> []"
    "\<not> endswith (strip_head h) sep"
proof -
  have sh: "strip_head h = rstrip h sep" using assms by (simp add: strip_head_def)
  obtain n where n: "h = rstrip h sep @ replicate n (CHR ''/'')" using rstrip_sep_decomp by blast
  have "rstrip h sep \<noteq> []"
  proof
    assume "rstrip h sep = []"
    with n have "h = replicate n (CHR ''/'')" by simp
    then have "h = replicate (length h) (CHR ''/'')" by (metis length_replicate)
    with assms show False by simp
  qed
  with n sh rstrip_sep_not_endswith [of h] show ?thesis by (intro that [of n]) simp_all
qed

lemma filename_for_relative:
  assumes "\<not> startswith s sep"
  shows "\<not> startswith (filename_for r (Some s)) sep \<and> ne_comps (filename_for r (Some s)) = ne_comps s"
proof -
  obtain h t where s: "s = h @ t" and t0: "CHR ''/'' \<notin> set t"
    and h: "h = [] \<or> last h = CHR ''/''"
    and ff: "filename_for r (Some s) = os_path_join (strip_head h) [t]"
    by (rule filename_for_decomp)
  have t: "\<not> startswith t sep" using t0 by (auto simp: startswith_sep)
  consider (none) "h = []" | (root) "h \<noteq> []" "h = replicate (length h) (CHR ''/'')"
    | (dir) "h \<noteq> []" "h \<noteq> replicate (length h) (CHR ''/'')" by blast
  then show ?thesis
  proof cases
    case none
    then have "filename_for r (Some s) = s" using t ff s by (simp add: strip_head_def join_step_relative)
    with assms show ?thesis by simp
  next
    case root
    then have "startswith h sep" by (cases h) (auto simp: startswith_sep)
    then have "startswith s sep" unfolding s by (auto simp: startswith_sep)
    with assms show ?thesis by simp
  next
    case dir
    then obtain n where n: "h = strip_head h @ replicate n (CHR ''/'')"
      and ne: "strip_head h \<noteq> []" and nend: "\<not> endswith (strip_head h) sep"
      by (rule strip_head_decomp)
    define h' where "h' = strip_head h"
    have "n \<noteq> 0"
    proof
      assume "n = 0"
      with n have "h = strip_head h" by simp
      with h dir(1) nend show False by (metis append_butlast_last_id endswith_sep)
    qed
    then obtain m where m: "n = Suc m" by (cases n) auto
    have ffeq: "filename_for r (Some s) = h' @ CHR ''/'' # t"
      using ff t ne nend by (simp add: join_step_relative sep_def h'_def)
    have "h = h' @ CHR ''/'' # replicate m (CHR ''/'')"
      using n m by (simp add: h'_def)
    then have seq: "s = h' @ CHR ''/'' # (replicate m (CHR ''/'') @ t)"
      unfolding s by simp
    have "ne_comps s = ne_comps h' @ ne_comps t"
      unfolding seq ne_comps_append_sep ne_comps_slashes ..
    then have c: "ne_comps (filename_for r (Some s)) = ne_comps s"
      by (simp add: ffeq ne_comps_append_sep)
    from ne obtain x xs where h': "h' = x # xs" by (cases h') (auto simp: h'_def)
    with assms seq have "x \<noteq> CHR ''/''" by (auto simp: startswith_sep)
    with h' have "\<not> startswith (filename_for r (Some s)) sep"
      unfolding ffeq by (auto simp: startswith_sep)
    with c show ?thesis by simp
  qed
qed

lemma filename_for_absolute:
  assumes "startswith s sep"
  shows "startswith (filename_for r (Some s)) sep"
proof -
  obtain h t where s: "s = h @ t" and t0: "CHR ''/'' \<notin> set t"
    and h: "h = [] \<or> last h = CHR ''/''"
    and ff: "filename_for r (Some s) = os_path_join (strip_head h) [t]"
    by (rule filename_for_decomp)
  have t: "\<not> startswith t sep" using t0 by (auto simp: startswith_sep)
  from assms obtain u where u: "s = CHR ''/'' # u" by (auto simp: startswith_sep)
  have hne: "h \<noteq> []"
  proof
    assume "h = []"
    with s u t0 show False by auto
  qed
  with u s obtain h1 where h1: "h = CHR ''/'' # h1" by (cases h) auto
  have "\<exists>v. strip_head h = CHR ''/'' # v"
  proof (cases "h = replicate (length h) (CHR ''/'')")
    case True
    with h1 show ?thesis by (simp add: strip_head_def)
  next
    case False
    with hne obtain n where n: "h = strip_head h @ replicate n (CHR ''/'')"
      and ne: "strip_head h \<noteq> []"
      by (rule strip_head_decomp)
    from ne obtain x xs where x: "strip_head h = x # xs" by (cases "strip_head h") auto
    with n h1 have "x = CHR ''/''" by (metis append_Cons list.inject)
    with x show ?thesis by simp
  qed
  then obtain v where "strip_head h = CHR ''/'' # v" by blast
  with t show ?thesis unfolding ff by (auto simp: join_step_relative startswith_sep)
qed

lemma safe_join_absolute: "startswith f sep \<Longrightarrow> safe_join d f = Inl NotFound"
  using normpath_absolute [of f] by (simp add: safe_join_def Let_def)

lemma safe_join_filename_for: "safe_join d (filename_for r (Some s)) = safe_join d s"
proof (cases "startswith s sep")
  case True
  then show ?thesis by (simp add: safe_join_absolute filename_for_absolute)
next
  case False
  then have "normpath (filename_for r (Some s)) = normpath s"
    using filename_for_relative [of s r] by (simp add: normpath_relative)
  then show ?thesis by (simp add: safe_join_def)
qed

subsection \<open>Reading one file\<close>

lemma read_text_file_cases:
  "read_text_file P f =
     (case open_text P f of
        Inr t \<Rightarrow> Inr (Some (Text t))
      | Inl e \<Rightarrow> if e = IOError ENOENT then Inr None else Inl e)"
  by (simp add: read_text_file_def split: sum.splits exn.splits)

lemma read_binary_file_cases:
  "read_binary_file P f =
     (case open_binary P f of
        Inr b \<Rightarrow> Inr (Some (Bytes b))
      | Inl e \<Rightarrow> if e = IOError ENOENT then Inr None else Inl e)"
  by (simp add: read_binary_file_def split: sum.splits exn.splits)

lemma safe_join_exn: "safe_join d f = Inl e \<Longrightarrow> e = NotFound"
  by (auto simp: safe_join_def Let_def split: if_splits)

lemma read_file_came_from:
  "read_text_file P p = Inr (Some c) \<Longrightarrow> came_from P p c"
  "read_binary_file P p = Inr (Some c) \<Longrightarrow> came_from P p c"
  by (auto simp: read_text_file_cases read_binary_file_cases came_from_def
      split: sum.splits if_splits)

lemma trailing_slashes_rstrip: "trailing_slashes (rstrip s sep) = 0"
proof -
  have "rstrip s sep = [] \<or> last (rstrip s sep) \<noteq> CHR ''/''" by (rule rstrip_sep_last)
  then show ?thesis
  proof
    assume "rstrip s sep = []"
    then show ?thesis by (simp add: trailing_slashes_def)
  next
    assume l: "last (rstrip s sep) \<noteq> CHR ''/''"
    show ?thesis
    proof (cases "rstrip s sep" rule: rev_cases)
      case Nil
      then show ?thesis by (simp add: trailing_slashes_def)
    next
      case (snoc ys y)
      with l show ?thesis by (simp add: trailing_slashes_def)
    qed
  qed
qed

lemma trailing_slashes_append_sep: "trailing_slashes (s @ sep) = Suc (trailing_slashes s)"
  by (simp add: trailing_slashes_def sep_def)

lemma trailing_slashes_endswith: "endswith s sep \<longleftrightarrow> 0 < trailing_slashes s"
proof (cases s rule: rev_cases)
  case Nil
  then show ?thesis by (simp add: endswith_sep trailing_slashes_def)
next
  case (snoc ys y)
  then show ?thesis by (auto simp: endswith_sep trailing_slashes_def)
qed

lemma endswith_append_sep: "endswith (s @ sep) sep"
  by (simp add: endswith_def sep_def)

lemma safe_join_relative: "safe_join d s = Inr f \<Longrightarrow> \<not> startswith s sep"
  using safe_join_absolute [of s d] by auto

lemma read_resolved:
  assumes "safe_join (directory r) (filename_for r (Some s)) = Inr d"
    and "(if isdir P d then find_file P d else Some d) = Some g"
  shows "DirectoryReader_read P r (Some s)
           = (if truthy (is_binary P (Some s)) then read_binary_file P g else read_text_file P g)"
  using assms by (simp add: DirectoryReader_read_def Let_def)

subsection \<open>The standard-input reader\<close>

lemma sys_stdin_read_calls: "calls (snd (sys_stdin_read w)) = calls w + 1"
  by (simp add: sys_stdin_read_def split: list.splits)

lemma read_stdin_calls: "calls (snd (read_stdin I w)) = calls w + 1"
proof -
  obtain x w' where x: "sys_stdin_read w = (x, w')" by (cases "sys_stdin_read w")
  with sys_stdin_read_calls [of w] have "calls w' = calls w + 1" by simp
  with x show ?thesis
    by (auto simp: read_stdin_def split: sum.splits option.splits)
qed

lemma StdinReader_read_cached:
  assumes "reader_text r = Some t"
  shows "StdinReader_read I subpath (r, w)
           = (Inr (case subpath of None \<Rightarrow> Some t | Some x \<Rightarrow> None), (r, w))"
  using assms by (simp add: StdinReader_read_def TextReader_read_def split: option.splits)

lemma StdinReader_reads_cached:
  assumes "reader_text r = Some t"
  shows "StdinReader_reads I subpaths (r, w)
           = (map (\<lambda>subpath. Inr (case subpath of None \<Rightarrow> Some t | Some x \<Rightarrow> None)) subpaths,
              (r, w))"
  using assms by (induction subpaths) (simp_all add: StdinReader_read_cached)

lemma StdinReader_first_read:
  assumes "StdinReader_read I None (StdinReader_init f, w) = (Inr (Some t), s1)"
  shows "reader_text (fst s1) = Some t"
proof -
  obtain x w' where x: "read_stdin I w = (x, w')" by (cases "read_stdin I w")
  with assms show ?thesis
    by (cases x)
       (auto simp: StdinReader_read_def StdinReader_init_def TextReader_init_def
          TextReader_read_def Let_def)
qed

subsection \<open>The example tree, evaluated\<close>

lemma example_init: "DirectoryReader_init (Some ''/d/README.md'') = Inr example_reader"
  by (simp add: path_defs reader_defs example_defs)

lemma example_read_entry:
  "DirectoryReader_read (example_platform h p) example_reader None = Inr (Some (Text h))"
  by (simp add: reader_defs example_defs)

lemma example_read_missing:
  "DirectoryReader_read (example_platform h p) example_reader (Some ''missing.md'') = Inr None"
  by (simp add: path_defs reader_defs example_defs)

lemma example_read_secret:
  "DirectoryReader_read (example_platform h p) example_reader (Some ''secret.md'')
     = Inl (IOError EACCES)"
  by (simp add: path_defs reader_defs example_defs)

lemma example_read_png:
  "DirectoryReader_read (example_platform h p) example_reader (Some ''a/../images/README.png'')
     = Inr (Some (Bytes p))"
  by (simp add: path_defs reader_defs example_defs)

lemma example_normpath_passwd: "normpath ''../../etc/passwd'' = ''../../etc/passwd''"
  by (simp add: path_defs)

lemma example_read_images:
  "DirectoryReader_read (example_platform h p) example_reader (Some ''images/'') = Inr None"
  by (simp add: path_defs reader_defs example_defs)

lemma example_read_images_png:
  "DirectoryReader_read (example_platform h p) example_reader (Some ''images/README.png'')
     = Inr (Some (Bytes p))"
  by (simp add: path_defs reader_defs example_defs)

lemma example_is_binary:
  "is_binary (example_platform h p) (Some ''images/'') = PyNone"
  "is_binary (example_platform h p) (Some ''images/README.png'') = PyBool True"
  by (simp_all add: is_binary_def mimetype_for_def example_defs endswith_def startswith_def)

lemma example_safe_join_images:
  "safe_join ''/d'' (filename_for example_reader (Some ''images'')) = Inr ''/d/images''"
  "safe_join ''/d'' (filename_for example_reader (Some ''images//'')) = Inr ''/d/images''"
  "safe_join ''/d'' (filename_for example_reader (Some ''README.md//'')) = Inr ''/d/README.md''"
  by (simp_all add: path_defs filename_for_def)

lemma locked_resolve:
  "safe_join ''/d'' (filename_for r (Some ''secret.md'')) = Inr ''/d/secret.md''"
  "safe_join ''/d'' (filename_for r (Some ''secret.png'')) = Inr ''/d/secret.png''"
  "safe_join ''/d'' (filename_for r (Some ''missing.png'')) = Inr ''/d/missing.png''"
  "safe_join ''/d'' (filename_for r (Some ''private/'')) = Inr ''/d/private''"
  by (simp_all add: path_defs filename_for_def)

lemma locked_find_file: "find_file locked_platform ''/d/private'' = Some ''/d/private/README.md''"
  by (simp add: find_file_def DEFAULT_FILENAMES_def locked_platform_def path_defs)

lemma locked_is_binary:
  "\<not> truthy (is_binary locked_platform (Some ''secret.md''))"
  "truthy (is_binary locked_platform (Some ''secret.png''))"
  "truthy (is_binary locked_platform (Some ''missing.png''))"
  "\<not> truthy (is_binary locked_platform (Some ''private/''))"
  by (simp_all add: is_binary_def mimetype_for_def locked_platform_def example_types_def
      endswith_def startswith_def)

section \<open>The claims\<close>

text \<open>
  C1. Whatever the subpath, content returned by \<^verbatim>\<open>DirectoryReader.read\<close> is the
  content of a file whose path lies within the subtree of the base directory; and a
  subpath that is absolute, or that normalises to a path leading upwards, makes
  \<^verbatim>\<open>read\<close> raise \<^verbatim>\<open>NotFound\<close> without opening anything.
\<close>

theorem read_confined_to_directory:
  "(DirectoryReader_read P r (Some s) = Inr (Some c) \<longrightarrow>
      (\<exists>p. within_subtree (directory r) p \<and> came_from P p c)) \<and>
   (isabs s \<or> normpath s = ''..'' \<or> startswith (normpath s) ''../'' \<longrightarrow>
      DirectoryReader_read P r (Some s) = Inl NotFound)"
proof (intro conjI impI)
  assume rd: "DirectoryReader_read P r (Some s) = Inr (Some c)"
  then obtain f where f: "safe_join (directory r) (filename_for r (Some s)) = Inr f"
    by (cases "safe_join (directory r) (filename_for r (Some s))")
       (simp_all add: DirectoryReader_read_def)
  then have wf: "within_subtree (directory r) f" by (rule safe_join_within)
  from rd f obtain f' where f': "(if isdir P f then find_file P f else Some f) = Some f'"
    and rf: "read_text_file P f' = Inr (Some c) \<or> read_binary_file P f' = Inr (Some c)"
    by (auto simp: DirectoryReader_read_def Let_def split: option.splits if_splits)
  have "within_subtree (directory r) f'"
  proof (cases "isdir P f")
    case True
    with f' have "find_file P f = Some f'" by simp
    then show ?thesis using wf by (rule find_file_within)
  next
    case False
    with f' wf show ?thesis by simp
  qed
  moreover from rf have "came_from P f' c" by (auto dest: read_file_came_from)
  ultimately show "\<exists>p. within_subtree (directory r) p \<and> came_from P p c" by blast
next
  assume up: "isabs s \<or> normpath s = ''..'' \<or> startswith (normpath s) ''../''"
  have "safe_join (directory r) s = Inl NotFound"
  proof (cases "isabs s")
    case True
    then show ?thesis by (simp add: safe_join_absolute isabs_def)
  next
    case False
    with up show ?thesis by (auto simp: safe_join_def Let_def)
  qed
  then show "DirectoryReader_read P r (Some s) = Inl NotFound"
    by (simp add: DirectoryReader_read_def safe_join_filename_for)
qed

text \<open>
  In the example tree a subpath with a harmless \<^verbatim>\<open>..\<close> is served from within
  \<^verbatim>\<open>/d\<close>, and \<^verbatim>\<open>../../etc/passwd\<close> is refused.
\<close>

theorem read_confined_to_directory_witness:
  "DirectoryReader_read (example_platform ''Hello'' [137, 80, 78, 71]) example_reader
       (Some ''a/../images/README.png'') = Inr (Some (Bytes [137, 80, 78, 71])) \<and>
   (\<exists>p. within_subtree ''/d'' p \<and>
        open_binary (example_platform ''Hello'' [137, 80, 78, 71]) p = Inr [137, 80, 78, 71]) \<and>
   DirectoryReader_read (example_platform ''Hello'' [137, 80, 78, 71]) example_reader
       (Some ''../../etc/passwd'') = Inl NotFound"
proof -
  let ?P = "example_platform ''Hello'' [137, 80, 78, 71]"
  have 1: "DirectoryReader_read ?P example_reader (Some ''a/../images/README.png'')
             = Inr (Some (Bytes [137, 80, 78, 71]))"
    by (rule example_read_png)
  have 2: "startswith (normpath ''../../etc/passwd'') ''../''"
    by (simp add: example_normpath_passwd startswith_def)
  from 1 read_confined_to_directory
    [of ?P example_reader "''a/../images/README.png''" "Bytes [137, 80, 78, 71]"]
  have "\<exists>p. within_subtree ''/d'' p \<and> came_from ?P p (Bytes [137, 80, 78, 71])"
    by (simp add: example_reader_def)
  moreover from 2 read_confined_to_directory [of ?P example_reader "''../../etc/passwd''"]
  have "DirectoryReader_read ?P example_reader (Some ''../../etc/passwd'') = Inl NotFound"
    by blast
  ultimately show ?thesis using 1 by (simp add: came_from_def)
qed

text \<open>
  C2 (as the code has it). Take the reader constructed with the path of the entry
  file \<^verbatim>\<open>/d/README.md\<close> of the example tree, whatever the text of that file and the
  bytes of \<^verbatim>\<open>images/README.png\<close>. Read without a subpath it returns the text; read
  with \<^verbatim>\<open>missing.md\<close> it returns absence. Read with \<^verbatim>\<open>images/\<close> it returns absence
  as well, since \<^verbatim>\<open>README.png\<close> is not a default file name, and \<^verbatim>\<open>is_binary\<close> of
  \<^verbatim>\<open>images/\<close> is false. The bytes come with the subpath \<^verbatim>\<open>images/README.png\<close>,
  for which \<^verbatim>\<open>is_binary\<close> is true.
\<close>

theorem directory_reader_end_to_end:
  "DirectoryReader_init (Some ''/d/README.md'') = Inr example_reader \<and>
   DirectoryReader_read (example_platform hello png) example_reader None
     = Inr (Some (Text hello)) \<and>
   DirectoryReader_read (example_platform hello png) example_reader (Some ''missing.md'')
     = Inr None \<and>
   DirectoryReader_read (example_platform hello png) example_reader (Some ''images/'')
     = Inr None \<and>
   \<not> truthy (is_binary (example_platform hello png) (Some ''images/'')) \<and>
   DirectoryReader_read (example_platform hello png) example_reader (Some ''images/README.png'')
     = Inr (Some (Bytes png)) \<and>
   truthy (is_binary (example_platform hello png) (Some ''images/README.png''))"
  by (simp add: example_init example_read_entry example_read_missing example_read_images
      example_read_images_png example_is_binary)

theorem directory_reader_end_to_end_witness:
  "DirectoryReader_read (example_platform ''Hello'' [137, 80, 78, 71]) example_reader None
     = Inr (Some (Text ''Hello'')) \<and>
   DirectoryReader_read (example_platform ''Hello'' [137, 80, 78, 71]) example_reader
     (Some ''images/README.png'') = Inr (Some (Bytes [137, 80, 78, 71]))"
  using directory_reader_end_to_end [of "''Hello''" "[137, 80, 78, 71]"] by blast

text \<open>
  C2 as stated fails: with \<^verbatim>\<open>images/\<close> holding \<^verbatim>\<open>README.png\<close>, reading the subpath
  \<^verbatim>\<open>images/\<close> does not return the bytes of that file, and \<^verbatim>\<open>is_binary\<close> is not true.
\<close>

theorem directory_reader_end_to_end_counterexample:
  "isdir (example_platform ''Hello'' [137, 80, 78, 71]) ''/d/images'' \<and>
   isfile (example_platform ''Hello'' [137, 80, 78, 71]) ''/d/images/README.png'' \<and>
   open_binary (example_platform ''Hello'' [137, 80, 78, 71]) ''/d/images/README.png''
     = Inr [137, 80, 78, 71] \<and>
   DirectoryReader_read (example_platform ''Hello'' [137, 80, 78, 71]) example_reader
     (Some ''images/'') \<noteq> Inr (Some (Bytes [137, 80, 78, 71])) \<and>
   \<not> truthy (is_binary (example_platform ''Hello'' [137, 80, 78, 71]) (Some ''images/''))"
  by (simp add: example_read_images example_is_binary) (simp add: example_platform_def)

text \<open>
  C3. \<^verbatim>\<open>last_updated\<close> hands the subpath to \<^verbatim>\<open>os.path.getmtime\<close> as it is, not
  joined to the base directory. In the example tree \<^verbatim>\<open>read\<close> finds \<^verbatim>\<open>README.md\<close>
  at \<^verbatim>\<open>/d/README.md\<close>, whose modification time is known, while \<^verbatim>\<open>last_updated\<close> of
  the same subpath asks for the relative name and raises file-not-found.
\<close>

theorem last_updated_unresolved_subpath:
  "DirectoryReader_read (example_platform ''Hello'' []) example_reader (Some ''README.md'')
     = Inr (Some (Text ''Hello'')) \<and>
   getmtime (example_platform ''Hello'' []) ''/d/README.md'' = Inr 1500000000 \<and>
   last_updated (example_platform ''Hello'' []) example_reader (Some ''README.md'')
     = Inl (IOError ENOENT) \<and>
   last_updated (example_platform ''Hello'' []) example_reader (Some ''README.md'')
     = getmtime (example_platform ''Hello'' []) ''README.md''"
proof -
  let ?P = "example_platform ''Hello'' []"
  have "DirectoryReader_read ?P example_reader (Some ''README.md'') = Inr (Some (Text ''Hello''))"
    by (simp add: path_defs reader_defs example_defs)
  moreover have "getmtime ?P ''/d/README.md'' = Inr 1500000000"
    by (simp add: example_platform_def)
  moreover have "last_updated ?P example_reader (Some ''README.md'') = Inl (IOError ENOENT)"
    by (simp add: last_updated_def example_platform_def)
  moreover have "last_updated ?P example_reader (Some ''README.md'') = getmtime ?P ''README.md''"
    by (simp add: last_updated_def)
  ultimately show ?thesis by blast
qed

text \<open>
  C4. In both file helpers that \<^verbatim>\<open>DirectoryReader.read\<close> reads through, absence is
  returned exactly when opening fails with \<^verbatim>\<open>ENOENT\<close>, and every other exception of
  the opening comes out unchanged. The same holds of \<^verbatim>\<open>read\<close> itself. Without a
  subpath it returns absence exactly when opening the entry file fails with
  \<^verbatim>\<open>ENOENT\<close>, and raises any other exception exactly when that opening raises it.
  With a subpath that resolves to a file to open (the joined path, or the default
  file found in it when it is a directory), it returns absence exactly when opening
  that file, in the mode that \<^verbatim>\<open>is_binary\<close> selects, fails with \<^verbatim>\<open>ENOENT\<close>, and raises
  any other exception exactly when that opening raises it. \<^verbatim>\<open>read\<close> never raises the
  file-not-found error: what it raises is \<^verbatim>\<open>NotFound\<close> of \<^verbatim>\<open>safe_join\<close> or the
  exception of an opening, as it was.
\<close>

theorem read_missing_file_is_absence:
  "(read_text_file P f = Inr None \<longleftrightarrow> open_text P f = Inl (IOError ENOENT)) \<and>
   (e \<noteq> IOError ENOENT \<longrightarrow> (read_text_file P f = Inl e \<longleftrightarrow> open_text P f = Inl e)) \<and>
   (read_binary_file P f = Inr None \<longleftrightarrow> open_binary P f = Inl (IOError ENOENT)) \<and>
   (e \<noteq> IOError ENOENT \<longrightarrow> (read_binary_file P f = Inl e \<longleftrightarrow> open_binary P f = Inl e)) \<and>
   DirectoryReader_read P r subpath \<noteq> Inl (IOError ENOENT) \<and>
   (DirectoryReader_read P r subpath = Inl e \<longrightarrow>
      e = NotFound \<or> (\<exists>p. open_text P p = Inl e \<or> open_binary P p = Inl e)) \<and>
   (DirectoryReader_read P r None = Inr None \<longleftrightarrow>
      open_text P (filename r) = Inl (IOError ENOENT)) \<and>
   (e \<noteq> IOError ENOENT \<longrightarrow>
      (DirectoryReader_read P r None = Inl e \<longleftrightarrow> open_text P (filename r) = Inl e)) \<and>
   (safe_join (directory r) (filename_for r (Some s)) = Inr d \<and>
    (if isdir P d then find_file P d else Some d) = Some g \<longrightarrow>
      (if truthy (is_binary P (Some s))
       then (DirectoryReader_read P r (Some s) = Inr None \<longleftrightarrow>
               open_binary P g = Inl (IOError ENOENT)) \<and>
            (e \<noteq> IOError ENOENT \<longrightarrow>
               (DirectoryReader_read P r (Some s) = Inl e \<longleftrightarrow> open_binary P g = Inl e))
       else (DirectoryReader_read P r (Some s) = Inr None \<longleftrightarrow>
               open_text P g = Inl (IOError ENOENT)) \<and>
            (e \<noteq> IOError ENOENT \<longrightarrow>
               (DirectoryReader_read P r (Some s) = Inl e \<longleftrightarrow> open_text P g = Inl e))))"
proof -
  have files:
    "(read_text_file P x = Inr None \<longleftrightarrow> open_text P x = Inl (IOError ENOENT)) \<and>
     (e \<noteq> IOError ENOENT \<longrightarrow> (read_text_file P x = Inl e \<longleftrightarrow> open_text P x = Inl e)) \<and>
     (read_binary_file P x = Inr None \<longleftrightarrow> open_binary P x = Inl (IOError ENOENT)) \<and>
     (e \<noteq> IOError ENOENT \<longrightarrow> (read_binary_file P x = Inl e \<longleftrightarrow> open_binary P x = Inl e))"
    for x
    by (auto simp: read_text_file_cases read_binary_file_cases split: sum.splits if_splits)
  have raised: "x = NotFound \<or> (x \<noteq> IOError ENOENT \<and>
      (\<exists>p. open_text P p = Inl x \<or> open_binary P p = Inl x))"
    if "DirectoryReader_read P r subpath = Inl x" for x
    using that
    by (auto simp: read_text_file_cases read_binary_file_cases DirectoryReader_read_def Let_def
        dest: safe_join_exn split: sum.splits option.splits if_splits)
  have never: "DirectoryReader_read P r subpath \<noteq> Inl (IOError ENOENT)"
    using raised [of "IOError ENOENT"] by auto
  have entry: "DirectoryReader_read P r None = read_text_file P (filename r)"
    by (simp add: DirectoryReader_read_def)
  have resolved: "DirectoryReader_read P r (Some s)
           = (if truthy (is_binary P (Some s)) then read_binary_file P g else read_text_file P g)"
    if "safe_join (directory r) (filename_for r (Some s)) = Inr d"
      "(if isdir P d then find_file P d else Some d) = Some g"
    using that by (rule read_resolved)
  have c1: "read_text_file P f = Inr None \<longleftrightarrow> open_text P f = Inl (IOError ENOENT)"
    and c2: "e \<noteq> IOError ENOENT \<longrightarrow> (read_text_file P f = Inl e \<longleftrightarrow> open_text P f = Inl e)"
    and c3: "read_binary_file P f = Inr None \<longleftrightarrow> open_binary P f = Inl (IOError ENOENT)"
    and c4: "e \<noteq> IOError ENOENT \<longrightarrow> (read_binary_file P f = Inl e \<longleftrightarrow> open_binary P f = Inl e)"
    using files [of f] by blast+
  have c6: "DirectoryReader_read P r subpath = Inl e \<longrightarrow>
      e = NotFound \<or> (\<exists>p. open_text P p = Inl e \<or> open_binary P p = Inl e)"
    using raised [of e] by blast
  have c7: "DirectoryReader_read P r None = Inr None \<longleftrightarrow>
      open_text P (filename r) = Inl (IOError ENOENT)"
    and c8: "e \<noteq> IOError ENOENT \<longrightarrow>
      (DirectoryReader_read P r None = Inl e \<longleftrightarrow> open_text P (filename r) = Inl e)"
    using files [of "filename r"] unfolding entry by blast+
  have c9: "safe_join (directory r) (filename_for r (Some s)) = Inr d \<and>
      (if isdir P d then find_file P d else Some d) = Some g \<longrightarrow>
      (if truthy (is_binary P (Some s))
       then (DirectoryReader_read P r (Some s) = Inr None \<longleftrightarrow>
               open_binary P g = Inl (IOError ENOENT)) \<and>
            (e \<noteq> IOError ENOENT \<longrightarrow>
               (DirectoryReader_read P r (Some s) = Inl e \<longleftrightarrow> open_binary P g = Inl e))
       else (DirectoryReader_read P r (Some s) = Inr None \<longleftrightarrow>
               open_text P g = Inl (IOError ENOENT)) \<and>
            (e \<noteq> IOError ENOENT \<longrightarrow>
               (DirectoryReader_read P r (Some s) = Inl e \<longleftrightarrow> open_text P g = Inl e)))"
    using files [of g] by (auto simp: resolved)
  from c1 c2 c3 c4 never c6 c7 c8 c9 show ?thesis by (intro conjI)
qed

text \<open>
  In the example tree the missing file gives absence and the unreadable one gives
  the permission error, in text mode and in binary mode. In the tree where nothing
  can be read, \<^verbatim>\<open>read\<close> raises the permission error for a text file, an image, the
  default file of a directory and the entry file, and returns absence for a missing
  image and a missing entry file.
\<close>

theorem read_missing_file_is_absence_witness:
  "IOError EACCES \<noteq> IOError ENOENT \<and>
   read_text_file (example_platform ''Hello'' []) ''/d/missing.md'' = Inr None \<and>
   read_text_file (example_platform ''Hello'' []) ''/d/secret.md'' = Inl (IOError EACCES) \<and>
   read_binary_file (example_platform ''Hello'' []) ''/d/missing.md'' = Inr None \<and>
   read_binary_file (example_platform ''Hello'' []) ''/d/secret.md'' = Inl (IOError EACCES) \<and>
   DirectoryReader_read (example_platform ''Hello'' []) example_reader (Some ''missing.md'')
     = Inr None \<and>
   DirectoryReader_read (example_platform ''Hello'' []) example_reader (Some ''secret.md'')
     = Inl (IOError EACCES) \<and>
   DirectoryReader_read locked_platform example_reader (Some ''secret.md'') = Inl (IOError EACCES) \<and>
   DirectoryReader_read locked_platform example_reader (Some ''secret.png'') = Inl (IOError EACCES) \<and>
   DirectoryReader_read locked_platform example_reader (Some ''private/'') = Inl (IOError EACCES) \<and>
   DirectoryReader_read locked_platform example_reader (Some ''missing.png'') = Inr None \<and>
   DirectoryReader_read locked_platform
     \<lparr>path = ''/d/secret.md'', filename = ''/d/secret.md'', directory = ''/d''\<rparr> None
     = Inl (IOError EACCES) \<and>
   DirectoryReader_read locked_platform
     \<lparr>path = ''/d/missing.md'', filename = ''/d/missing.md'', directory = ''/d''\<rparr> None
     = Inr None"
proof -
  let ?P = "example_platform ''Hello'' []"
  have ne: "IOError EACCES \<noteq> IOError ENOENT" by (simp add: EACCES_def ENOENT_def)
  have o: "open_text ?P ''/d/missing.md'' = Inl (IOError ENOENT)"
      "open_text ?P ''/d/secret.md'' = Inl (IOError EACCES)"
      "open_binary ?P ''/d/missing.md'' = Inl (IOError ENOENT)"
      "open_binary ?P ''/d/secret.md'' = Inl (IOError EACCES)"
    by (simp_all add: example_platform_def)
  have "read_text_file ?P ''/d/missing.md'' = Inr None \<and>
        read_text_file ?P ''/d/secret.md'' = Inl (IOError EACCES) \<and>
        read_binary_file ?P ''/d/missing.md'' = Inr None \<and>
        read_binary_file ?P ''/d/secret.md'' = Inl (IOError EACCES)"
    using ne o read_missing_file_is_absence [of ?P "''/d/missing.md''" "IOError EACCES"]
      read_missing_file_is_absence [of ?P "''/d/secret.md''" "IOError EACCES"]
    by blast
  with ne have helpers:
    "IOError EACCES \<noteq> IOError ENOENT \<and>
     read_text_file ?P ''/d/missing.md'' = Inr None \<and>
     read_text_file ?P ''/d/secret.md'' = Inl (IOError EACCES) \<and>
     read_binary_file ?P ''/d/missing.md'' = Inr None \<and>
     read_binary_file ?P ''/d/secret.md'' = Inl (IOError EACCES) \<and>
     DirectoryReader_read ?P example_reader (Some ''missing.md'') = Inr None \<and>
     DirectoryReader_read ?P example_reader (Some ''secret.md'') = Inl (IOError EACCES)"
    by (simp add: example_read_missing example_read_secret)
  let ?L = locked_platform
  have d: "directory example_reader = ''/d''" by (simp add: example_reader_def)
  have dirs: "\<not> isdir ?L ''/d/secret.md''" "\<not> isdir ?L ''/d/secret.png''"
      "\<not> isdir ?L ''/d/missing.png''" "isdir ?L ''/d/private''"
    by (simp_all add: locked_platform_def)
  have ol: "open_text ?L ''/d/secret.md'' = Inl (IOError EACCES)"
      "open_binary ?L ''/d/secret.png'' = Inl (IOError EACCES)"
      "open_text ?L ''/d/private/README.md'' = Inl (IOError EACCES)"
      "open_binary ?L ''/d/missing.png'' = Inl (IOError ENOENT)"
      "open_text ?L ''/d/missing.md'' = Inl (IOError ENOENT)"
    by (simp_all add: locked_platform_def)
  have 1: "DirectoryReader_read ?L example_reader (Some ''secret.md'') = Inl (IOError EACCES)"
    using read_missing_file_is_absence [where P = ?L and r = example_reader and s = "''secret.md''"
        and d = "''/d/secret.md''" and g = "''/d/secret.md''" and e = "IOError EACCES"]
      ne d dirs ol locked_resolve locked_is_binary
    by simp
  have 2: "DirectoryReader_read ?L example_reader (Some ''secret.png'') = Inl (IOError EACCES)"
    using read_missing_file_is_absence [where P = ?L and r = example_reader and s = "''secret.png''"
        and d = "''/d/secret.png''" and g = "''/d/secret.png''" and e = "IOError EACCES"]
      ne d dirs ol locked_resolve locked_is_binary
    by simp
  have 3: "DirectoryReader_read ?L example_reader (Some ''private/'') = Inl (IOError EACCES)"
    using read_missing_file_is_absence [where P = ?L and r = example_reader and s = "''private/''"
        and d = "''/d/private''" and g = "''/d/private/README.md''" and e = "IOError EACCES"]
      ne d dirs ol locked_resolve locked_is_binary locked_find_file
    by simp
  have 4: "DirectoryReader_read ?L example_reader (Some ''missing.png'') = Inr None"
    using read_missing_file_is_absence [where P = ?L and r = example_reader and s = "''missing.png''"
        and d = "''/d/missing.png''" and g = "''/d/missing.png''" and e = "IOError EACCES"]
      ne d dirs ol locked_resolve locked_is_binary
    by simp
  have 5: "DirectoryReader_read ?L
      \<lparr>path = ''/d/secret.md'', filename = ''/d/secret.md'', directory = ''/d''\<rparr> None
      = Inl (IOError EACCES)"
    using read_missing_file_is_absence [where P = ?L and e = "IOError EACCES"
        and r = "\<lparr>path = ''/d/secret.md'', filename = ''/d/secret.md'', directory = ''/d''\<rparr>"]
      ne ol by simp
  have 6: "DirectoryReader_read ?L
      \<lparr>path = ''/d/missing.md'', filename = ''/d/missing.md'', directory = ''/d''\<rparr> None
      = Inr None"
    using read_missing_file_is_absence [where P = ?L
        and r = "\<lparr>path = ''/d/missing.md'', filename = ''/d/missing.md'', directory = ''/d''\<rparr>"]
      ol by simp
  from helpers 1 2 3 4 5 6 show ?thesis by simp
qed

text \<open>
  C5 (as the code has it). For a subpath that \<^verbatim>\<open>safe_join\<close> accepts:
  when it resolves to something that is not a directory, \<^verbatim>\<open>normalize\<close> returns it
  with every trailing slash stripped; when it resolves to a directory, the result
  ends with a slash, one being appended if the subpath has none and the subpath
  being returned unchanged otherwise, so the result has as many trailing slashes as
  the subpath, and at least one.
\<close>

theorem normalize_trailing_slash:
  assumes "safe_join (directory r) (filename_for r (Some s)) = Inr f"
  shows "\<exists>t. DirectoryReader_normalize P r (Some s) = Inr (Some t) \<and>
           (if isdir P f
            then t = (if endswith s sep then s else s @ sep) \<and> endswith t sep \<and>
                 trailing_slashes t = max 1 (trailing_slashes s)
            else t = rstrip s sep \<and> \<not> endswith t sep \<and> trailing_slashes t = 0)"
proof (cases "isdir P f")
  case False
  with assms show ?thesis
    by (simp add: DirectoryReader_normalize_def trailing_slashes_rstrip rstrip_sep_not_endswith)
next
  case True
  show ?thesis
  proof (cases "endswith s sep")
    case e: True
    then have "max 1 (trailing_slashes s) = trailing_slashes s"
      by (simp add: trailing_slashes_endswith)
    with assms True e show ?thesis by (simp add: DirectoryReader_normalize_def)
  next
    case e: False
    then have "trailing_slashes s = 0" by (simp add: trailing_slashes_endswith)
    moreover have "endswith (s @ sep) sep" by (rule endswith_append_sep)
    ultimately show ?thesis using assms True e
      by (simp add: DirectoryReader_normalize_def trailing_slashes_append_sep)
  qed
qed

theorem normalize_trailing_slash_witness:
  "DirectoryReader_normalize (example_platform ''Hello'' []) example_reader (Some ''images'')
     = Inr (Some ''images/'') \<and>
   DirectoryReader_normalize (example_platform ''Hello'' []) example_reader (Some ''README.md//'')
     = Inr (Some ''README.md'')"
proof -
  let ?P = "example_platform ''Hello'' []"
  have d: "directory example_reader = ''/d''" by (simp add: example_reader_def)
  have i: "isdir ?P ''/d/images''" "\<not> isdir ?P ''/d/README.md''"
    by (simp_all add: example_platform_def)
  have e: "\<not> endswith ''images'' sep" "rstrip ''README.md//'' sep = ''README.md''"
    by (simp_all add: endswith_def sep_def rstrip_def)
  from normalize_trailing_slash [of example_reader "''images''" "''/d/images''" ?P]
    normalize_trailing_slash [of example_reader "''README.md//''" "''/d/README.md''" ?P]
  show ?thesis using d i e example_safe_join_images by (auto simp: sep_def)
qed

text \<open>
  C5 as stated fails: \<^verbatim>\<open>images//\<close> resolves to a directory and is returned with
  its two trailing slashes.
\<close>

theorem normalize_trailing_slash_counterexample:
  "isdir (example_platform ''Hello'' []) ''/d/images'' \<and>
   safe_join (directory example_reader) (filename_for example_reader (Some ''images//''))
     = Inr ''/d/images'' \<and>
   DirectoryReader_normalize (example_platform ''Hello'' []) example_reader (Some ''images//'')
     = Inr (Some ''images//'') \<and>
   trailing_slashes ''images//'' = 2"
proof -
  let ?P = "example_platform ''Hello'' []"
  have d: "directory example_reader = ''/d''" by (simp add: example_reader_def)
  have i: "isdir ?P ''/d/images''" by (simp add: example_platform_def)
  have e: "endswith ''images//'' sep" by (simp add: endswith_def sep_def)
  have t: "trailing_slashes ''images//'' = 2" by (simp add: trailing_slashes_def)
  have "DirectoryReader_normalize ?P example_reader (Some ''images//'') = Inr (Some ''images//'')"
    using d i e example_safe_join_images(2) by (simp add: DirectoryReader_normalize_def)
  with d i t example_safe_join_images(2) show ?thesis by simp
qed

text \<open>
  C6 (as the code has it). For every subpath other than the empty string,
  normalising twice gives what normalising once gives, exceptions included.
\<close>

theorem normalize_idempotent:
  assumes "subpath \<noteq> Some []"
  shows "normalize_twice P r subpath = DirectoryReader_normalize P r subpath"
proof (cases subpath)
  case None
  then show ?thesis by (simp add: normalize_twice_def DirectoryReader_normalize_def)
next
  case (Some s)
  with assms have ne: "s \<noteq> []" by simp
  show ?thesis
  proof (cases "safe_join (directory r) s")
    case (Inl ex)
    with Some show ?thesis
      by (simp add: normalize_twice_def DirectoryReader_normalize_def safe_join_filename_for)
  next
    case (Inr f)
    then have rel: "\<not> startswith s sep" by (rule safe_join_relative)
    have sj: "safe_join (directory r) (rstrip s sep) = Inr f"
      using Inr rel by (simp add: safe_join_def normpath_rstrip)
    have sj': "safe_join (directory r) (s @ sep) = Inr f"
      using Inr rel ne by (simp add: safe_join_def normpath_append_sep)
    have e: "endswith (s @ sep) sep" by (rule endswith_append_sep)
    show ?thesis
      using Some Inr sj sj' e
      by (simp add: normalize_twice_def DirectoryReader_normalize_def safe_join_filename_for
          rstrip_sep_idem)
  qed
qed

theorem normalize_idempotent_witness:
  "Some ''images'' \<noteq> Some [] \<and>
   normalize_twice (example_platform ''Hello'' []) example_reader (Some ''images'')
     = Inr (Some ''images/'')"
proof -
  let ?P = "example_platform ''Hello'' []"
  have ne: "Some ''images'' \<noteq> Some []" by simp
  have d: "directory example_reader = ''/d''" by (simp add: example_reader_def)
  have i: "isdir ?P ''/d/images''" by (simp add: example_platform_def)
  have e: "\<not> endswith ''images'' sep" "''images'' @ sep = ''images/''"
    by (simp_all add: endswith_def sep_def)
  have "DirectoryReader_normalize ?P example_reader (Some ''images'') = Inr (Some ''images/'')"
    using d i e example_safe_join_images(1) by (simp add: DirectoryReader_normalize_def)
  with normalize_idempotent [OF ne, of ?P example_reader] ne show ?thesis by simp
qed

text \<open>
  C6 as stated fails at the empty subpath: it resolves to the base directory and is
  normalised to \<^verbatim>\<open>/\<close>, which \<^verbatim>\<open>safe_join\<close> refuses as absolute.
\<close>

theorem normalize_idempotent_counterexample:
  "DirectoryReader_normalize (example_platform ''Hello'' []) example_reader (Some []) = Inr (Some ''/'') \<and>
   DirectoryReader_normalize (example_platform ''Hello'' []) example_reader (Some ''/'') = Inl NotFound \<and>
   normalize_twice (example_platform ''Hello'' []) example_reader (Some [])
     \<noteq> DirectoryReader_normalize (example_platform ''Hello'' []) example_reader (Some [])"
proof -
  let ?P = "example_platform ''Hello'' []"
  have 1: "DirectoryReader_normalize ?P example_reader (Some []) = Inr (Some ''/'')"
    by (simp add: path_defs reader_defs example_defs)
  have 2: "DirectoryReader_normalize ?P example_reader (Some ''/'') = Inl NotFound"
    by (simp add: path_defs reader_defs example_defs)
  from 1 2 show ?thesis by (simp add: normalize_twice_def)
qed

text \<open>
  C7. \<^verbatim>\<open>is_binary\<close> is true exactly when the MIME type guessed for the subpath
  starts with \<^verbatim>\<open>image/\<close>. In every other case (no subpath, no guess, another type)
  the value is \<^verbatim>\<open>None\<close>, the empty string or \<^verbatim>\<open>False\<close>: false as a truth value.
\<close>

theorem is_binary_iff_image:
  "(truthy (is_binary P subpath) \<longleftrightarrow>
      (\<exists>s m. subpath = Some s \<and> guess_type P s = Some m \<and> startswith m ''image/'')) \<and>
   (is_binary P subpath = PyBool True \<longleftrightarrow>
      (\<exists>s m. subpath = Some s \<and> guess_type P s = Some m \<and> startswith m ''image/'')) \<and>
   (\<not> truthy (is_binary P subpath) \<longrightarrow>
      is_binary P subpath \<in> {PyNone, PyStr [], PyBool False})"
  by (auto simp: is_binary_def mimetype_for_def startswith_def split: option.splits)

text \<open>With a MIME table that knows \<^verbatim>\<open>.png\<close> and \<^verbatim>\<open>.md\<close>.\<close>

theorem is_binary_iff_image_witness:
  "truthy (is_binary (example_platform ''Hello'' []) (Some ''logo.png'')) \<and>
   \<not> truthy (is_binary (example_platform ''Hello'' []) (Some ''notes.md'')) \<and>
   \<not> truthy (is_binary (example_platform ''Hello'' []) (Some ''data.xyz'')) \<and>
   \<not> truthy (is_binary (example_platform ''Hello'' []) None) \<and>
   is_binary (example_platform ''Hello'' []) (Some ''data.xyz'') \<in> {PyNone, PyStr [], PyBool False}"
proof -
  let ?P = "example_platform ''Hello'' []"
  have g: "guess_type ?P ''logo.png'' = Some ''image/png''"
      "guess_type ?P ''notes.md'' = Some ''text/markdown''"
      "guess_type ?P ''data.xyz'' = None"
    by (simp_all add: example_defs endswith_def)
  have s: "startswith ''image/png'' ''image/''" "\<not> startswith ''text/markdown'' ''image/''"
    by (simp_all add: startswith_def)
  show ?thesis
    using g s is_binary_iff_image [of ?P "Some ''logo.png''"]
      is_binary_iff_image [of ?P "Some ''notes.md''"]
      is_binary_iff_image [of ?P "Some ''data.xyz''"]
      is_binary_iff_image [of ?P None]
    by auto
qed

text \<open>
  C8. A \<^verbatim>\<open>TextReader\<close> read without a subpath returns the text it was constructed
  with, and read with any subpath returns \<^verbatim>\<open>None\<close>.
\<close>

theorem TextReader_read_contract:
  "TextReader_read (TextReader_init t f) None = t \<and>
   TextReader_read (TextReader_init t f) (Some s) = None \<and>
   TextReader_read r None = reader_text r \<and>
   TextReader_read r (Some s) = None"
  by (simp add: TextReader_read_def TextReader_init_def)

theorem TextReader_read_contract_witness:
  "TextReader_read (TextReader_init (Some ''# Title'') None) None = Some ''# Title'' \<and>
   TextReader_read (TextReader_init (Some ''# Title'') None) (Some ''anything'') = None"
  using TextReader_read_contract
    [of "Some ''# Title''" None "''anything''" "TextReader_init (Some ''# Title'') None"]
  by blast

text \<open>
  C9 (as the code has it). The first read of a fresh \<^verbatim>\<open>StdinReader\<close> without a
  subpath calls \<^verbatim>\<open>sys.stdin.read()\<close> exactly once. If that read returned a text,
  every later sequence of reads leaves reader and stream as they are, returning the
  same text without a subpath and \<^verbatim>\<open>None\<close> with one. A read with a subpath never
  touches the stream and returns \<^verbatim>\<open>None\<close>, in any state.
\<close>

theorem stdin_drained_once:
  "calls (snd (snd (StdinReader_read I None (StdinReader_init f, w)))) = calls w + 1 \<and>
   (StdinReader_read I None (StdinReader_init f, w) = (Inr (Some t), s1) \<longrightarrow>
      StdinReader_reads I subpaths s1
        = (map (\<lambda>subpath. Inr (case subpath of None \<Rightarrow> Some t | Some x \<Rightarrow> None)) subpaths, s1)) \<and>
   StdinReader_read I (Some x) s = (Inr None, s)"
proof (intro conjI impI)
  obtain y w' where y: "read_stdin I w = (y, w')" by (cases "read_stdin I w")
  with read_stdin_calls [of I w] have "calls w' = calls w + 1" by simp
  with y show "calls (snd (snd (StdinReader_read I None (StdinReader_init f, w)))) = calls w + 1"
    by (cases y)
       (simp_all add: StdinReader_read_def StdinReader_init_def TextReader_init_def Let_def)
next
  assume a: "StdinReader_read I None (StdinReader_init f, w) = (Inr (Some t), s1)"
  then have "reader_text (fst s1) = Some t" by (rule StdinReader_first_read)
  then show "StdinReader_reads I subpaths s1
        = (map (\<lambda>subpath. Inr (case subpath of None \<Rightarrow> Some t | Some x \<Rightarrow> None)) subpaths, s1)"
    using StdinReader_reads_cached [of "fst s1" t I subpaths "snd s1"] by simp
next
  show "StdinReader_read I (Some x) s = (Inr None, s)"
    by (cases s) (simp add: StdinReader_read_def TextReader_read_def)
qed

theorem stdin_drained_once_witness:
  "StdinReader_reads python3 [None, None, Some ''x'', None]
     (StdinReader_init None, \<lparr>script = [Inr (Some ''# Hello'')], calls = 0\<rparr>)
   = ([Inr (Some ''# Hello''), Inr (Some ''# Hello''), Inr None, Inr (Some ''# Hello'')],
      (\<lparr>reader_text = Some ''# Hello'', reader_filename = None\<rparr>, \<lparr>script = [], calls = 1\<rparr>))"
proof -
  let ?s1 = "(\<lparr>reader_text = Some ''# Hello'', reader_filename = None\<rparr>, \<lparr>script = [], calls = 1\<rparr>)"
  have 1: "StdinReader_read python3 None
             (StdinReader_init None, \<lparr>script = [Inr (Some ''# Hello'')], calls = 0\<rparr>)
           = (Inr (Some ''# Hello''), ?s1)"
    by (simp add: StdinReader_read_def StdinReader_init_def TextReader_init_def
        TextReader_read_def read_stdin_def sys_stdin_read_def python3_def)
  from 1 stdin_drained_once
    [of python3 None "\<lparr>script = [Inr (Some ''# Hello'')], calls = 0\<rparr>" "''# Hello''" ?s1
        "[None, Some ''x'', None]"]
  have 2: "StdinReader_reads python3 [None, Some ''x'', None] ?s1
          = ([Inr (Some ''# Hello''), Inr None, Inr (Some ''# Hello'')], ?s1)"
    by (simp del: StdinReader_reads.simps)
  show ?thesis
    using 2 by (subst StdinReader_reads.simps(2)) (simp add: 1 del: StdinReader_reads.simps)
qed

text \<open>
  C9 as stated fails when the first drain raises (here: input that does not decode):
  nothing is cached, and the next read without a subpath reads the stream again.
\<close>

theorem stdin_drained_once_counterexample:
  "StdinReader_reads python3 [None, None]
     (StdinReader_init None, \<lparr>script = [Inl UnicodeDecodeError], calls = 0\<rparr>)
   = ([Inl UnicodeDecodeError, Inr (Some [])],
      (\<lparr>reader_text = Some [], reader_filename = None\<rparr>, \<lparr>script = [], calls = 2\<rparr>))"
  by (simp add: StdinReader_read_def StdinReader_init_def TextReader_init_def
      TextReader_read_def read_stdin_def sys_stdin_read_def python3_def)



end
